theory Spec2Isabelle
  imports Main "HOL-Library.Sublist" "HOL-Library.Char_ord" "HOL-Library.List_Lexorder"
begin

section \<open>Strings\<close>

text \<open>
  A Python \<^verbatim>\<open>str\<close> is modelled as a \<^typ>\<open>string\<close> whose characters stand for the
  code points below 256, so that \<^term>\<open>length\<close> is Python's \<^verbatim>\<open>len\<close>.
  \<^verbatim>\<open>str.isspace\<close> and the regular expression class \<^verbatim>\<open>\s\<close> agree on these code
  points: 9 to 13, 28 to 32, 133 and 160.
\<close>

definition isspace :: "char \<Rightarrow> bool" where
  "isspace c =
     (let n = (of_char c :: nat)
      in (9 \<le> n \<and> n \<le> 13) \<or> (28 \<le> n \<and> n \<le> 32) \<or> n = 133 \<or> n = 160)"

text \<open>The characters of the class \<^verbatim>\<open>[<>:"/\\|?*]\<close> in \<^verbatim>\<open>sanitize_filename\<close>.\<close>

definition reserved_chars :: "char list" where
  "reserved_chars =
     [CHR ''<'', CHR ''>'', CHR '':'', CHR 0x22, CHR ''/'', CHR 0x5C, CHR ''|'', CHR ''?'', CHR ''*'']"

text \<open>\<^verbatim>\<open>re.sub(r'[<>:"/\\|?*]', '', s)\<close>\<close>

definition strip_reserved :: "string \<Rightarrow> string" where
  "strip_reserved s = filter (\<lambda>c. c \<notin> set reserved_chars) s"

text \<open>\<^verbatim>\<open>re.sub(r'\s+', ' ', s)\<close>: every maximal run of whitespace becomes one space.\<close>

function collapse_ws :: "string \<Rightarrow> string" where
  "collapse_ws [] = []"
| "collapse_ws (c # cs) =
     (if isspace c then CHR '' '' # collapse_ws (dropWhile isspace cs)
      else c # collapse_ws cs)"
  by pat_completeness auto
termination
  by (relation "measure length") (auto simp: length_dropWhile_le le_imp_less_Suc)

text \<open>\<^verbatim>\<open>s.lstrip()\<close>, \<^verbatim>\<open>s.rstrip()\<close> and \<^verbatim>\<open>s.strip()\<close>\<close>

definition lstrip :: "string \<Rightarrow> string" where
  "lstrip s = dropWhile isspace s"

definition rstrip :: "string \<Rightarrow> string" where
  "rstrip s = rev (dropWhile isspace (rev s))"

definition strip :: "string \<Rightarrow> string" where
  "strip s = rstrip (lstrip s)"

text \<open>
  The slice \<^verbatim>\<open>s[:n]\<close> for a Python integer \<^verbatim>\<open>n\<close>: a negative bound counts from
  the end of the string.
\<close>

definition slice_to :: "int \<Rightarrow> 'a list \<Rightarrow> 'a list" where
  "slice_to n xs =
     (if 0 \<le> n then take (nat n) xs else take (nat (int (length xs) + n)) xs)"

section \<open>Configuration\<close>

text \<open>
  The entries of \<^verbatim>\<open>self.config\<close> (and the three directories derived from it in
  \<^verbatim>\<open>__init__\<close>) that the modelled functions read. A path is the list of its components
  below the filesystem root, as \<^verbatim>\<open>pathlib\<close> keeps them.
\<close>

type_synonym path = "string list"

record config =
  input_dir :: path
  output_dir :: path
  temp_dir :: path
  sanitize_names :: bool
  max_filename_length :: int
  enable_audible :: bool
  tag_before_conversion :: bool

section \<open>PathSanitizer: \<^verbatim>\<open>sanitize_filename\<close>\<close>

definition sanitize_filename :: "config \<Rightarrow> string \<Rightarrow> string" where
  "sanitize_filename cfg filename =
     (if \<not> sanitize_names cfg then filename
      else
        let filename1 = strip_reserved filename;
            filename2 = strip (collapse_ws filename1);
            max_length = max_filename_length cfg
        in if int (length filename2) > max_length
           then rstrip (slice_to max_length filename2)
           else filename2)"

section \<open>Paths\<close>

text \<open>\<^verbatim>\<open>Path.name\<close> (empty for the root) and \<^verbatim>\<open>Path.parent\<close> (the root is its own parent).\<close>

definition path_name :: "path \<Rightarrow> string" where
  "path_name p = (if p = [] then [] else last p)"

definition path_parent :: "path \<Rightarrow> path" where
  "path_parent p = butlast p"

section \<open>StructureDetector: \<^verbatim>\<open>detect_input_structure\<close>\<close>

text \<open>
  The two tuples the function returns, \<^verbatim>\<open>('structured', author, book)\<close> and
  \<^verbatim>\<open>('flat', None, book_name)\<close>, as a tagged union.
\<close>

datatype structure_info = Structured string string | Flat string

definition detect_input_structure :: "config \<Rightarrow> path \<Rightarrow> structure_info" where
  "detect_input_structure cfg input_path =
     (if path_parent input_path \<noteq> input_dir cfg
      then Structured (path_name (path_parent input_path)) (path_name input_path)
      else Flat (path_name input_path))"

section \<open>Tags as the tag library presents them\<close>

text \<open>
  What \<^verbatim>\<open>mutagen.File(path)\<close> does with a file: it raises, it returns \<^verbatim>\<open>None\<close> (the
  format is not recognised), or it returns an object whose \<^verbatim>\<open>tags\<close> attribute is
  missing or \<^verbatim>\<open>None\<close> (\<open>NoTags\<close>), is an object without a \<^verbatim>\<open>get\<close> method
  (\<open>OpaqueTags\<close>), or is a dictionary-like object from keys to lists of text values
  (\<open>DictTags\<close>; an empty one is falsy in Python).
\<close>

datatype tags = NoTags | OpaqueTags | DictTags "(string \<times> string list) list"

datatype probe = ProbeRaises | ProbeNone | Probed tags

datatype error =
  AttributeError | IndexError | FileExistsError | FileNotFoundError
  | NotADirectoryError | IsADirectoryError | ShutilError

text \<open>\<^verbatim>\<open>tags.get(key, [''])\<close> and \<^verbatim>\<open>value[0]\<close>\<close>

definition tag_get :: "(string \<times> string list) list \<Rightarrow> string \<Rightarrow> string list" where
  "tag_get d k = (case map_of d k of None \<Rightarrow> [[]] | Some v \<Rightarrow> v)"

definition first :: "string list \<Rightarrow> error + string" where
  "first v = (case v of [] \<Rightarrow> Inl IndexError | x # _ \<Rightarrow> Inr x)"

text \<open>
  Lines 152 to 171: the four fields after the tag block, or the exception raised in it.
  In the branch for tags without \<^verbatim>\<open>get\<close> the code calls \<^verbatim>\<open>get\<close> all the same, which
  raises \<^verbatim>\<open>AttributeError\<close>.
\<close>

type_synonym fields = "string option \<times> string option \<times> string option \<times> string option"

definition read_tags :: "tags \<Rightarrow> error + fields" where
  "read_tags t =
     (case t of
        NoTags \<Rightarrow> Inr (None, None, None, None)
      | OpaqueTags \<Rightarrow> Inl AttributeError
      | DictTags d \<Rightarrow>
          if d = [] then Inr (None, None, None, None)
          else
            (case first (tag_get d ''TIT2'') of Inl e \<Rightarrow> Inl e | Inr tit2 \<Rightarrow>
            (case (if tit2 \<noteq> [] then Inr tit2 else first (tag_get d ''TALB'')) of
               Inl e \<Rightarrow> Inl e | Inr v_title \<Rightarrow>
            (case first (tag_get d ''TPE1'') of Inl e \<Rightarrow> Inl e | Inr v_artist \<Rightarrow>
            (case first (tag_get d ''TALB'') of Inl e \<Rightarrow> Inl e | Inr v_album \<Rightarrow>
              (let year_tag = tag_get d ''TDRC'';
                   v_year = (case year_tag of [] \<Rightarrow> None | y # _ \<Rightarrow> Some y)
               in Inr (Some v_title, Some v_artist, Some v_album, v_year)))))))"

section \<open>MetadataResolver\<close>

record metadata =
  title :: string
  artist :: string
  album :: string
  year :: "string option"

text \<open>Python truthiness of an optional string: \<^verbatim>\<open>None\<close> and the empty string are falsy.\<close>

fun truthy :: "string option \<Rightarrow> bool" where
  "truthy None = False"
| "truthy (Some s) = (s \<noteq> [])"

text \<open>\<^verbatim>\<open>x = x.strip() if x else None\<close>\<close>

definition clean :: "string option \<Rightarrow> string option" where
  "clean x = (if truthy x then map_option strip x else None)"

text \<open>Lines 179 to 192: the fallback to the folder structure.\<close>

definition structure_fallback ::
  "config \<Rightarrow> path \<Rightarrow> string option \<times> string option \<times> string option
     \<Rightarrow> string option \<times> string option \<times> string option" where
  "structure_fallback cfg book_path f =
     (case f of (v_title, v_artist, v_album) \<Rightarrow>
        (case detect_input_structure cfg book_path of
           Structured author book \<Rightarrow>
             (let v_artist = (if \<not> truthy v_artist then Some author else v_artist)
              in if \<not> truthy v_title \<and> \<not> truthy v_album then (Some book, v_artist, Some book)
                 else (v_title, v_artist, v_album))
         | Flat book \<Rightarrow>
             if \<not> truthy v_title \<and> \<not> truthy v_album
             then (Some (path_name book_path), v_artist, Some (path_name book_path))
             else (v_title, v_artist, v_album)))"

text \<open>Lines 194 to 200: the final fallback.\<close>

definition final_fallback ::
  "path \<Rightarrow> string option \<times> string option \<times> string option
     \<Rightarrow> string option \<times> string option \<times> string option" where
  "final_fallback book_path f =
     (case f of (v_title, v_artist, v_album) \<Rightarrow>
        (let v_artist = (if \<not> truthy v_artist then Some ''Unknown Author'' else v_artist);
             v_title = (if \<not> truthy v_title then Some (path_name book_path) else v_title);
             v_album = (if \<not> truthy v_album then v_title else v_album)
         in (v_title, v_artist, v_album)))"

text \<open>
  Lines 173 to 207: the record built when the tag block did not raise. After the final
  fallback the three fields are strings; \<open>value_of\<close> reads them.
\<close>

fun value_of :: "string option \<Rightarrow> string" where
  "value_of None = []"
| "value_of (Some s) = s"

definition resolve_fields :: "config \<Rightarrow> path \<Rightarrow> fields \<Rightarrow> metadata" where
  "resolve_fields cfg book_path f =
     (case f of (v_title, v_artist, v_album, v_year) \<Rightarrow>
        (case final_fallback book_path
                (structure_fallback cfg book_path (clean v_title, clean v_artist, clean v_album)) of
           (v_title, v_artist, v_album) \<Rightarrow>
             \<lparr>title = value_of v_title, artist = value_of v_artist,
              album = value_of v_album,
              year = clean v_year\<rparr>))"

text \<open>Lines 209 to 227: the record built in the exception handler.\<close>

definition fallback_metadata :: "config \<Rightarrow> path \<Rightarrow> metadata" where
  "fallback_metadata cfg book_path =
     (case detect_input_structure cfg book_path of
        Structured author book \<Rightarrow>
          \<lparr>title = book, artist = author, album = book, year = None\<rparr>
      | Flat book \<Rightarrow>
          \<lparr>title = path_name book_path, artist = ''Unknown Author'',
           album = path_name book_path, year = None\<rparr>)"

section \<open>The filesystem\<close>

text \<open>
  The filesystem is an association list from resolved paths (paths without a \<^verbatim>\<open>..\<close>
  component) to nodes; the first entry of a path counts, and the root is always a directory.
  The content of a file is abstracted to what the tag library makes of it. \<open>entry\<close> reads
  the node at a resolved path.
\<close>

datatype node = Dir | File probe

type_synonym fs = "(path \<times> node) list"

definition entry :: "fs \<Rightarrow> path \<Rightarrow> node option" where
  "entry fs p = (if p = [] then Some Dir else map_of fs p)"

text \<open>
  A path as the program holds it may contain \<^verbatim>\<open>..\<close>: \<^verbatim>\<open>pathlib\<close> keeps the component
  and the operating system resolves it. Resolution walks the components from the root; the
  directory it stands in must exist and be a directory before each step, and \<^verbatim>\<open>..\<close>
  steps to the parent (the root is its own parent). There are no symbolic links.
\<close>

definition step :: "path \<Rightarrow> string \<Rightarrow> path" where
  "step d c = (if c = ''..'' then butlast d else d @ [c])"

fun resolve_from :: "fs \<Rightarrow> path \<Rightarrow> path \<Rightarrow> error + path" where
  "resolve_from fs d [] = Inr d"
| "resolve_from fs d (c # cs) =
     (case entry fs d of
        None \<Rightarrow> Inl FileNotFoundError
      | Some (File x) \<Rightarrow> Inl NotADirectoryError
      | Some Dir \<Rightarrow> resolve_from fs (step d c) cs)"

definition resolve :: "fs \<Rightarrow> path \<Rightarrow> error + path" where
  "resolve fs p = resolve_from fs [] p"

text \<open>What the operating system finds at a path, and \<^verbatim>\<open>p.exists()\<close>.\<close>

definition lookup :: "fs \<Rightarrow> path \<Rightarrow> node option" where
  "lookup fs p = (case resolve fs p of Inl e \<Rightarrow> None | Inr r \<Rightarrow> entry fs r)"

definition exists :: "fs \<Rightarrow> path \<Rightarrow> bool" where
  "exists fs p = (lookup fs p \<noteq> None)"

text \<open>
  \<^verbatim>\<open>list(d.glob("*" + suf))\<close>: the entries directly in the directory \<open>d\<close> whose name ends
  with \<open>suf\<close>, each as \<open>d\<close> joined with the name; nothing when \<open>d\<close> is not a directory.
\<close>

definition glob_suffix :: "fs \<Rightarrow> path \<Rightarrow> string \<Rightarrow> path list" where
  "glob_suffix fs d suf =
     (case resolve fs d of
        Inl e \<Rightarrow> []
      | Inr r \<Rightarrow>
          if entry fs r = Some Dir
          then map (\<lambda>q. d @ [last q])
                 (remdups (filter (\<lambda>q. q \<noteq> [] \<and> butlast q = r \<and> suffix suf (last q))
                    (map fst fs)))
          else [])"

text \<open>\<^verbatim>\<open>sorted(list(book_path.glob("*.mp3")) + list(book_path.glob("*.m4a")))\<close>\<close>

definition audio_files :: "fs \<Rightarrow> path \<Rightarrow> path list" where
  "audio_files fs book_path =
     sort (glob_suffix fs book_path ''.mp3'' @ glob_suffix fs book_path ''.m4a'')"

text \<open>\<^verbatim>\<open>File(str(p))\<close>: opening a directory or a missing file raises.\<close>

definition mutagen_File :: "fs \<Rightarrow> path \<Rightarrow> probe" where
  "mutagen_File fs p = (case lookup fs p of Some (File pr) \<Rightarrow> pr | _ \<Rightarrow> ProbeRaises)"

definition extract_metadata_from_files :: "config \<Rightarrow> fs \<Rightarrow> path \<Rightarrow> metadata option" where
  "extract_metadata_from_files cfg fs book_path =
     (case audio_files fs book_path of
        [] \<Rightarrow> None
      | audio_file # _ \<Rightarrow>
          (case mutagen_File fs audio_file of
             ProbeNone \<Rightarrow> None
           | ProbeRaises \<Rightarrow> Some (fallback_metadata cfg book_path)
           | Probed t \<Rightarrow>
               (case read_tags t of
                  Inl e \<Rightarrow> Some (fallback_metadata cfg book_path)
                | Inr f \<Rightarrow> Some (resolve_fields cfg book_path f))))"

section \<open>Joining paths\<close>

text \<open>
  \<^verbatim>\<open>p / s\<close> of \<^verbatim>\<open>pathlib\<close>: the string is split at the slashes, empty components and
  \<^verbatim>\<open>.\<close> are dropped (\<^verbatim>\<open>..\<close> is kept), and a string that starts with a slash replaces
  the path.
\<close>

fun split_slash :: "string \<Rightarrow> string list" where
  "split_slash [] = [[]]"
| "split_slash (c # cs) =
     (if c = CHR ''/'' then [] # split_slash cs
      else (case split_slash cs of [] \<Rightarrow> [[c]] | w # ws \<Rightarrow> (c # w) # ws))"

definition parts :: "string \<Rightarrow> path" where
  "parts s = filter (\<lambda>w. w \<noteq> [] \<and> w \<noteq> ''.'') (split_slash s)"

definition pjoin :: "path \<Rightarrow> string \<Rightarrow> path" where
  "pjoin p s = (case s of [] \<Rightarrow> p | c # _ \<Rightarrow> if c = CHR ''/'' then parts s else p @ parts s)"

section \<open>The scratch paths of a job\<close>

text \<open>Line 290: \<^verbatim>\<open>self.temp_dir / f"processing_{book_path.name}"\<close>\<close>

definition temp_book_path :: "config \<Rightarrow> path \<Rightarrow> path" where
  "temp_book_path cfg book_path = pjoin (temp_dir cfg) (''processing_'' @ path_name book_path)"

text \<open>
  Lines 331 (and 390), 353 and 406; in all three \<open>book_path\<close> is the directory the
  function was called on, which for a job is its staged copy.
\<close>

definition beets_library :: "config \<Rightarrow> path \<Rightarrow> path" where
  "beets_library cfg book_path = pjoin (temp_dir cfg) (''beets_'' @ path_name book_path @ ''.db'')"

definition beets_config_file :: "config \<Rightarrow> path \<Rightarrow> path" where
  "beets_config_file cfg book_path =
     pjoin (temp_dir cfg) (''beets_config_'' @ path_name book_path @ ''.yaml'')"

definition file_list_path :: "config \<Rightarrow> path \<Rightarrow> path" where
  "file_list_path cfg book_path = pjoin (temp_dir cfg) (path_name book_path @ ''_files.txt'')"

section \<open>Configurations and conditions used in the statements\<close>

text \<open>The \<^verbatim>\<open>default_config\<close> of \<^verbatim>\<open>load_config\<close>.\<close>

definition default_config :: config where
  "default_config =
     \<lparr>input_dir = [''input''], output_dir = [''output''], temp_dir = [''temp''],
      sanitize_names = True, max_filename_length = 200,
      enable_audible = True, tag_before_conversion = True\<rparr>"

text \<open>Reading the tags of the first audio file raises (lines 147 to 171).\<close>

definition reading_raises :: "fs \<Rightarrow> path \<Rightarrow> bool" where
  "reading_raises fs book_path =
     (case audio_files fs book_path of
        [] \<Rightarrow> False
      | audio_file # _ \<Rightarrow>
          (case mutagen_File fs audio_file of
             ProbeRaises \<Rightarrow> True | ProbeNone \<Rightarrow> False | Probed t \<Rightarrow> isl (read_tags t)))"

text \<open>The first audio file is read and carries no tags.\<close>

definition tagless :: "fs \<Rightarrow> path \<Rightarrow> bool" where
  "tagless fs book_path =
     (case audio_files fs book_path of
        [] \<Rightarrow> False
      | audio_file # _ \<Rightarrow>
          (case mutagen_File fs audio_file of
             Probed t \<Rightarrow> t = NoTags \<or> t = DictTags [] | _ \<Rightarrow> False))"

text \<open>The tag library does not recognise the first audio file (line 148).\<close>

definition unrecognised :: "fs \<Rightarrow> path \<Rightarrow> bool" where
  "unrecognised fs book_path =
     (case audio_files fs book_path of
        [] \<Rightarrow> False
      | audio_file # _ \<Rightarrow> mutagen_File fs audio_file = ProbeNone)"

text \<open>The fields read from the tags of the first audio file, when reading does not raise.\<close>

definition tag_fields :: "fs \<Rightarrow> path \<Rightarrow> fields option" where
  "tag_fields fs book_path =
     (case audio_files fs book_path of
        [] \<Rightarrow> None
      | audio_file # _ \<Rightarrow>
          (case mutagen_File fs audio_file of
             Probed t \<Rightarrow> (case read_tags t of Inl e \<Rightarrow> None | Inr f \<Rightarrow> Some f)
           | _ \<Rightarrow> None))"

text \<open>Example trees.\<close>

definition fs_unrecognised :: fs where
  "fs_unrecognised =
     [([''input''], Dir), ([''input'', ''Book''], Dir),
      ([''input'', ''Book'', ''01.m4a''], File ProbeNone)]"

definition jane_config :: config where
  "jane_config = default_config\<lparr>input_dir := [''Input'']\<rparr>"

definition fs_jane :: "probe \<Rightarrow> fs" where
  "fs_jane pr =
     [([''Input''], Dir), ([''Input'', ''Jane Doe''], Dir),
      ([''Input'', ''Jane Doe'', ''My Book''], Dir),
      ([''Input'', ''Jane Doe'', ''My Book'', ''01.mp3''], File pr),
      ([''Input'', ''Jane Doe'', ''My Book'', ''02.mp3''], File pr)]"

definition fs_flat :: "probe \<Rightarrow> fs" where
  "fs_flat pr =
     [([''input''], Dir), ([''input'', ''Book One''], Dir),
      ([''input'', ''Book One'', ''01.mp3''], File pr)]"

section \<open>Filesystem operations\<close>

text \<open>
  Each operation resolves the path it is given and returns the new filesystem or the
  exception it raises. Failures that do not depend on the tree (permissions, a full disk)
  are outside the model.
\<close>

definition remove_entry :: "path \<Rightarrow> fs \<Rightarrow> fs" where
  "remove_entry p fs = filter (\<lambda>e. fst e \<noteq> p) fs"

definition remove_tree :: "path \<Rightarrow> fs \<Rightarrow> fs" where
  "remove_tree p fs = filter (\<lambda>e. \<not> prefix p (fst e)) fs"

text \<open>The entries at and below \<open>src\<close>, moved below \<open>dst\<close> (both resolved).\<close>

definition rebase :: "path \<Rightarrow> path \<Rightarrow> fs \<Rightarrow> fs" where
  "rebase src dst fs =
     map (\<lambda>e. (dst @ drop (length src) (fst e), snd e)) (filter (\<lambda>e. prefix src (fst e)) fs)"

text \<open>\<^verbatim>\<open>os.mkdir(p)\<close>: the parent must resolve to a directory and nothing may be at \<open>p\<close>.\<close>

definition os_mkdir :: "fs \<Rightarrow> path \<Rightarrow> error + fs" where
  "os_mkdir fs p =
     (case resolve fs p of
        Inl e \<Rightarrow> Inl e
      | Inr r \<Rightarrow> if entry fs r \<noteq> None then Inl FileExistsError else Inr ((r, Dir) # fs))"

text \<open>
  \<^verbatim>\<open>p.mkdir(parents=True, exist_ok=True)\<close> as \<^verbatim>\<open>pathlib\<close> implements it: try
  \<^verbatim>\<open>os.mkdir\<close>; on \<^verbatim>\<open>FileNotFoundError\<close> make the parent in the same way and try once
  more; every other error is ignored when the path is a directory. An exception is returned
  with the filesystem it leaves.
\<close>

function mkdir_parents :: "fs \<Rightarrow> path \<Rightarrow> (error \<times> fs) + fs" where
  "mkdir_parents fs p =
     (case os_mkdir fs p of
        Inr fs1 \<Rightarrow> Inr fs1
      | Inl e \<Rightarrow>
          if e = FileNotFoundError \<and> p \<noteq> []
          then (case mkdir_parents fs (butlast p) of
                  Inl x \<Rightarrow> Inl x
                | Inr fs1 \<Rightarrow>
                    (case os_mkdir fs1 p of
                       Inr fs2 \<Rightarrow> Inr fs2
                     | Inl e2 \<Rightarrow>
                         if e2 \<noteq> FileNotFoundError \<and> lookup fs1 p = Some Dir then Inr fs1
                         else Inl (e2, fs1)))
          else if e \<noteq> FileNotFoundError \<and> lookup fs p = Some Dir then Inr fs
          else Inl (e, fs))"
  by pat_completeness auto
termination
  by (relation "measure (\<lambda>(fs, p). length p)") auto

text \<open>
  \<^verbatim>\<open>os.makedirs(name)\<close>: the parent is made first when it does not exist, then the
  directory itself, which must not exist.
\<close>

definition makedirs :: "fs \<Rightarrow> path \<Rightarrow> (error \<times> fs) + fs" where
  "makedirs fs name =
     (case (if name = [] \<or> exists fs (butlast name) then Inr fs
            else (case mkdir_parents fs (butlast name) of
                    Inl (e, fs1) \<Rightarrow> if e = FileExistsError then Inr fs1 else Inl (e, fs1)
                  | Inr fs1 \<Rightarrow> Inr fs1)) of
        Inl x \<Rightarrow> Inl x
      | Inr fs1 \<Rightarrow>
          (case os_mkdir fs1 name of Inl e \<Rightarrow> Inl (e, fs1) | Inr fs2 \<Rightarrow> Inr fs2))"

text \<open>\<^verbatim>\<open>shutil.rmtree(p)\<close>\<close>

definition rmtree :: "fs \<Rightarrow> path \<Rightarrow> error + fs" where
  "rmtree fs p =
     (case resolve fs p of
        Inl e \<Rightarrow> Inl e
      | Inr r \<Rightarrow>
          (case entry fs r of
             None \<Rightarrow> Inl FileNotFoundError
           | Some (File c) \<Rightarrow> Inl NotADirectoryError
           | Some Dir \<Rightarrow> Inr (remove_tree r fs)))"

text \<open>
  \<^verbatim>\<open>shutil.copytree(src, dst)\<close>: the source is listed, the destination is made with
  \<^verbatim>\<open>os.makedirs\<close>, and the entries below \<open>src\<close> are copied as they are when the call
  begins.
\<close>

definition copytree :: "fs \<Rightarrow> path \<Rightarrow> path \<Rightarrow> (error \<times> fs) + fs" where
  "copytree fs src dst =
     (case resolve fs src of
        Inl e \<Rightarrow> Inl (e, fs)
      | Inr rs \<Rightarrow>
          (case entry fs rs of
             None \<Rightarrow> Inl (FileNotFoundError, fs)
           | Some (File c) \<Rightarrow> Inl (NotADirectoryError, fs)
           | Some Dir \<Rightarrow>
               (case makedirs fs dst of
                  Inl x \<Rightarrow> Inl x
                | Inr fs1 \<Rightarrow>
                    (case resolve fs1 dst of
                       Inl e \<Rightarrow> Inl (e, fs1)
                     | Inr rd \<Rightarrow>
                         Inr (rebase rs rd (filter (\<lambda>e. fst e \<noteq> rs) fs) @ fs1)))))"

text \<open>\<^verbatim>\<open>open(p, 'w')\<close> followed by writing the content \<open>c\<close>\<close>

definition write_file :: "fs \<Rightarrow> path \<Rightarrow> probe \<Rightarrow> error + fs" where
  "write_file fs p c =
     (case resolve fs p of
        Inl e \<Rightarrow> Inl e
      | Inr r \<Rightarrow>
          if entry fs r = Some Dir then Inl IsADirectoryError
          else Inr ((r, File c) # remove_entry r fs))"

text \<open>\<^verbatim>\<open>p.unlink(missing_ok=True)\<close>: only \<^verbatim>\<open>FileNotFoundError\<close> is ignored.\<close>

definition unlink_missing_ok :: "fs \<Rightarrow> path \<Rightarrow> error + fs" where
  "unlink_missing_ok fs p =
     (case resolve fs p of
        Inl e \<Rightarrow> if e = FileNotFoundError then Inr fs else Inl e
      | Inr r \<Rightarrow>
          if entry fs r = Some Dir then Inl IsADirectoryError else Inr (remove_entry r fs))"

text \<open>
  \<^verbatim>\<open>shutil.move(src, dst)\<close>: into \<open>dst\<close> when that is a directory, which must not hold
  an entry of the same name; otherwise a rename, which replaces a file at \<open>dst\<close>.
\<close>

definition move :: "fs \<Rightarrow> path \<Rightarrow> path \<Rightarrow> error + fs" where
  "move fs src dst =
     (if lookup fs dst = Some Dir \<and> resolve fs src = resolve fs dst then Inr fs
      else
        let real_dst = (if lookup fs dst = Some Dir then pjoin dst (path_name src) else dst)
        in if lookup fs dst = Some Dir \<and> exists fs real_dst then Inl ShutilError
           else (case resolve fs src of
                   Inl e \<Rightarrow> Inl e
                 | Inr rs \<Rightarrow>
                     (case entry fs rs of
                        None \<Rightarrow> Inl FileNotFoundError
                      | Some n \<Rightarrow>
                          (case resolve fs real_dst of
                             Inl e \<Rightarrow> Inl e
                           | Inr rd \<Rightarrow>
                               if n = Dir \<and> prefix rs rd then Inl ShutilError
                               else if n = Dir \<and> entry fs rd \<noteq> None then Inl NotADirectoryError
                               else Inr (rebase rs rd fs
                                         @ remove_tree rs (remove_entry rd fs))))))"

section \<open>The external tools\<close>

text \<open>How \<^verbatim>\<open>subprocess.run\<close> ends: with an exit status, with \<^verbatim>\<open>TimeoutExpired\<close>, or with
  another exception.\<close>

datatype proc_result = Exited int | TimedOut | RunRaised

text \<open>
  One run of \<^verbatim>\<open>beet import\<close> on a directory: how it ends, the entries it leaves below
  the directory (paths relative to it; the tool rewrites tags in place and may add cover
  art), and whether it leaves its library file behind.
\<close>

record beet_run =
  beet_result :: proc_result
  beet_tree :: "(path \<times> node) list"
  beet_library_written :: bool

text \<open>
  The arguments of the \<^verbatim>\<open>ffmpeg\<close> command that depend on the job. Codec, bitrate,
  quality profile and cover art are handed to the tool as they are configured and are left
  out.
\<close>

record ffmpeg_args =
  arg_file_list :: path
  arg_title :: string
  arg_artist :: string
  arg_album :: string
  arg_year :: "string option"
  arg_output :: path

text \<open>One run of \<^verbatim>\<open>ffmpeg\<close>: how it ends and the content of the output file it wrote, if
  it wrote one.\<close>

record ffmpeg_run =
  ffmpeg_result :: proc_result
  ffmpeg_output :: "probe option"

record tools =
  beet :: "fs \<Rightarrow> path \<Rightarrow> beet_run"
  ffmpeg :: "fs \<Rightarrow> ffmpeg_args \<Rightarrow> ffmpeg_run"

text \<open>
  What a run of the tagging tool does to the filesystem: the entries below the imported
  directory are replaced by the ones the run leaves, and the library file is written when
  the run leaves one and its path is free for a file. Nothing else changes: the tool is
  called with \<^verbatim>\<open>copy\<close> and \<^verbatim>\<open>move\<close> switched off.
\<close>

definition beet_effect :: "config \<Rightarrow> beet_run \<Rightarrow> path \<Rightarrow> fs \<Rightarrow> fs" where
  "beet_effect cfg run book_path fs =
     (let fs1 =
            (case resolve fs book_path of
               Inl e \<Rightarrow> fs
             | Inr r \<Rightarrow>
                 map (\<lambda>e. (r @ fst e, snd e))
                   (filter (\<lambda>e. fst e \<noteq> [] \<and> ''..'' \<notin> set (fst e)) (beet_tree run))
                 @ filter (\<lambda>e. \<not> strict_prefix r (fst e)) fs);
          db = beets_library cfg book_path
      in if beet_library_written run
         then (case write_file fs1 db ProbeNone of Inl e \<Rightarrow> fs1 | Inr fs2 \<Rightarrow> fs2)
         else fs1)"

text \<open>
  What a run of the transcoder does to the filesystem: it writes its output file, when it
  writes one and the path is free for a file. A run that fails may still have written one.
\<close>

definition ffmpeg_effect :: "ffmpeg_run \<Rightarrow> path \<Rightarrow> fs \<Rightarrow> fs" where
  "ffmpeg_effect run output_file fs =
     (case ffmpeg_output run of
        None \<Rightarrow> fs
      | Some c \<Rightarrow> (case write_file fs output_file c of Inl e \<Rightarrow> fs | Inr fs1 \<Rightarrow> fs1))"

section \<open>OutputPathPlanner: \<^verbatim>\<open>create_output_structure\<close>\<close>

definition output_book_dir :: "config \<Rightarrow> metadata \<Rightarrow> path" where
  "output_book_dir cfg m =
     pjoin (pjoin (output_dir cfg) (sanitize_filename cfg (artist m)))
       (sanitize_filename cfg (album m))"

definition m4b_filename :: "config \<Rightarrow> metadata \<Rightarrow> string" where
  "m4b_filename cfg m = sanitize_filename cfg (album m) @ ''.m4b''"

text \<open>
  The record always has the key \<^verbatim>\<open>album\<close>, so \<^verbatim>\<open>metadata.get('album', book_title)\<close> is
  the album. The function returns the book directory and the file name, and creates the
  directory.
\<close>

definition create_output_structure ::
  "config \<Rightarrow> fs \<Rightarrow> metadata \<Rightarrow> string \<Rightarrow> (error \<times> fs) + ((path \<times> string) \<times> fs)" where
  "create_output_structure cfg fs m book_title =
     (let author = sanitize_filename cfg (artist m);
          book = sanitize_filename cfg (album m);
          author_dir = pjoin (output_dir cfg) author;
          book_dir = pjoin author_dir book
      in case mkdir_parents fs book_dir of
           Inl x \<Rightarrow> Inl x
         | Inr fs1 \<Rightarrow> Inr ((book_dir, book @ ''.m4b''), fs1))"

section \<open>\<^verbatim>\<open>tag_with_beets\<close>\<close>

text \<open>
  The configuration file is written before the \<^verbatim>\<open>try\<close>, so a failure there leaves the
  function as an exception. Every way the tool can fail returns the initial metadata. The
  \<^verbatim>\<open>finally\<close> block removes the configuration and the library file. An exception is
  returned with the filesystem it leaves.
\<close>

definition tag_with_beets ::
  "config \<Rightarrow> (fs \<Rightarrow> path \<Rightarrow> beet_run) \<Rightarrow> fs \<Rightarrow> path \<Rightarrow> metadata
     \<Rightarrow> (error \<times> fs) + (metadata \<times> fs)" where
  "tag_with_beets cfg beet_tool fs book_path initial_metadata =
     (let config_file = beets_config_file cfg book_path
      in case write_file fs config_file ProbeNone of
           Inl e \<Rightarrow> Inl (e, fs)
         | Inr fs1 \<Rightarrow>
             (let run = beet_tool fs1 book_path;
                  fs2 = beet_effect cfg run book_path fs1;
                  returned =
                    (if beet_result run = Exited 0
                     then (case extract_metadata_from_files cfg fs2 book_path of
                             Some updated_metadata \<Rightarrow> updated_metadata
                           | None \<Rightarrow> initial_metadata)
                     else initial_metadata)
              in case unlink_missing_ok fs2 config_file of
                   Inl e \<Rightarrow> Inl (e, fs2)
                 | Inr fs3 \<Rightarrow>
                     (case unlink_missing_ok fs3 (beets_library cfg book_path) of
                        Inl e \<Rightarrow> Inl (e, fs3)
                      | Inr fs4 \<Rightarrow> Inr (returned, fs4))))"

section \<open>\<^verbatim>\<open>convert_to_m4b_ffmpeg712\<close>\<close>

text \<open>
  The command of lines 414 to 449, and the function. The file list is written before the
  \<^verbatim>\<open>try\<close>. The function returns the output file only when the tool exits with status 0
  and the file exists; every other end of the run, and an exception while removing the file
  list, returns \<^verbatim>\<open>None\<close>.
\<close>

definition ffmpeg_command :: "config \<Rightarrow> path \<Rightarrow> metadata \<Rightarrow> string \<Rightarrow> ffmpeg_args" where
  "ffmpeg_command cfg book_path m output_filename =
     \<lparr>arg_file_list = file_list_path cfg book_path, arg_title = title m,
      arg_artist = artist m, arg_album = album m,
      arg_year = (if truthy (year m) then year m else None),
      arg_output = pjoin (temp_dir cfg) output_filename\<rparr>"

definition convert_to_m4b_ffmpeg712 ::
  "config \<Rightarrow> (fs \<Rightarrow> ffmpeg_args \<Rightarrow> ffmpeg_run) \<Rightarrow> fs \<Rightarrow> path \<Rightarrow> metadata \<Rightarrow> string
     \<Rightarrow> error + (path option \<times> fs)" where
  "convert_to_m4b_ffmpeg712 cfg ffmpeg_tool fs book_path m output_filename =
     (if audio_files fs book_path = [] then Inr (None, fs)
      else
        let output_file = pjoin (temp_dir cfg) output_filename;
            file_list = file_list_path cfg book_path
        in case write_file fs file_list ProbeNone of
             Inl e \<Rightarrow> Inl e
           | Inr fs1 \<Rightarrow>
               (let run = ffmpeg_tool fs1 (ffmpeg_command cfg book_path m output_filename);
                    fs2 = ffmpeg_effect run output_file fs1
                in if ffmpeg_result run = Exited 0 \<and> exists fs2 output_file
                   then (case unlink_missing_ok fs2 file_list of
                           Inl e \<Rightarrow> Inr (None, fs2)
                         | Inr fs3 \<Rightarrow> Inr (Some output_file, fs3))
                   else Inr (None, fs2)))"

section \<open>PipelineOrchestrator: \<^verbatim>\<open>process_audiobook\<close>\<close>

text \<open>
  How a job ends: no metadata (line 275), the output exists already (line 287), the
  conversion succeeded (line 314) or failed (line 316), or an exception reached the handler
  of line 318.
\<close>

datatype job_result =
  NoMetadata | SkippedDuplicate | Converted | ConversionFailed | ProcessingError error

text \<open>Steps 5 and 6 (lines 301 to 316): convert, move to the final destination, clean up.\<close>

definition convert_and_move ::
  "config \<Rightarrow> tools \<Rightarrow> fs \<Rightarrow> path \<Rightarrow> path \<Rightarrow> metadata \<Rightarrow> string \<Rightarrow> path \<Rightarrow> job_result \<times> fs" where
  "convert_and_move cfg tls fs book_path temp_path enhanced_metadata filename final_m4b_path =
     (case convert_to_m4b_ffmpeg712 cfg (ffmpeg tls) fs temp_path enhanced_metadata filename of
        Inl e \<Rightarrow> (ProcessingError e, fs)
      | Inr (None, fs1) \<Rightarrow> (ConversionFailed, fs1)
      | Inr (Some temp_m4b_file, fs1) \<Rightarrow>
          if exists fs1 temp_m4b_file
          then (case move fs1 temp_m4b_file final_m4b_path of
                  Inl e \<Rightarrow> (ProcessingError e, fs1)
                | Inr fs2 \<Rightarrow>
                    (case rmtree fs2 book_path of
                       Inl e \<Rightarrow> (ProcessingError e, fs2)
                     | Inr fs3 \<Rightarrow>
                         (case rmtree fs3 temp_path of
                            Inl e \<Rightarrow> (ProcessingError e, fs3)
                          | Inr fs4 \<Rightarrow> (Converted, fs4))))
          else (ConversionFailed, fs1))"

text \<open>Step 4 (lines 296 to 299), followed by steps 5 and 6.\<close>

definition tag_and_convert ::
  "config \<Rightarrow> tools \<Rightarrow> fs \<Rightarrow> path \<Rightarrow> path \<Rightarrow> metadata \<Rightarrow> string \<Rightarrow> path \<Rightarrow> job_result \<times> fs" where
  "tag_and_convert cfg tls fs book_path temp_path m filename final_m4b_path =
     (if enable_audible cfg \<and> tag_before_conversion cfg
      then (case tag_with_beets cfg (beet tls) fs temp_path m of
              Inl (e, fs1) \<Rightarrow> (ProcessingError e, fs1)
            | Inr (enhanced_metadata, fs1) \<Rightarrow>
                convert_and_move cfg tls fs1 book_path temp_path enhanced_metadata filename
                  final_m4b_path)
      else convert_and_move cfg tls fs book_path temp_path m filename final_m4b_path)"

text \<open>Step 3 (lines 289 to 294): a stale staged copy is removed, the source is copied.\<close>

definition stage_copy :: "config \<Rightarrow> fs \<Rightarrow> path \<Rightarrow> (error \<times> fs) + fs" where
  "stage_copy cfg fs book_path =
     (let temp_path = temp_book_path cfg book_path
      in case (if exists fs temp_path then rmtree fs temp_path else Inr fs) of
           Inl e \<Rightarrow> Inl (e, fs)
         | Inr fs1 \<Rightarrow> copytree fs1 book_path temp_path)"

text \<open>
  The whole function. An exception ends the job with the filesystem as the failing operation
  found it.
\<close>

definition process_audiobook :: "config \<Rightarrow> tools \<Rightarrow> fs \<Rightarrow> path \<Rightarrow> job_result \<times> fs" where
  "process_audiobook cfg tls fs book_path =
     (case extract_metadata_from_files cfg fs book_path of
        None \<Rightarrow> (NoMetadata, fs)
      | Some m \<Rightarrow>
          (case create_output_structure cfg fs m (path_name book_path) of
             Inl (e, fs1) \<Rightarrow> (ProcessingError e, fs1)
           | Inr ((output_dir_of_book, filename), fs1) \<Rightarrow>
               (let final_m4b_path = pjoin output_dir_of_book filename
                in if exists fs1 final_m4b_path
                   then (case rmtree fs1 book_path of
                           Inl e \<Rightarrow> (ProcessingError e, fs1)
                         | Inr fs2 \<Rightarrow> (SkippedDuplicate, fs2))
                   else (case stage_copy cfg fs1 book_path of
                           Inl (e, fs2) \<Rightarrow> (ProcessingError e, fs2)
                         | Inr fs2 \<Rightarrow>
                             tag_and_convert cfg tls fs2 book_path
                               (temp_book_path cfg book_path) m filename final_m4b_path))))"

section \<open>Conditions on trees used in the statements\<close>

text \<open>A path in resolved form: no component is \<^verbatim>\<open>..\<close>.\<close>

definition plain :: "path \<Rightarrow> bool" where
  "plain p = (''..'' \<notin> set p)"

text \<open>Every entry of the tree lies in a directory of the tree.\<close>

definition wf_fs :: "fs \<Rightarrow> bool" where
  "wf_fs fs = list_all (\<lambda>e. entry fs (butlast (fst e)) = Some Dir) fs"

text \<open>Neither path lies at or below the other.\<close>

definition unrelated :: "path \<Rightarrow> path \<Rightarrow> bool" where
  "unrelated p q = (\<not> prefix p q \<and> \<not> prefix q p)"

text \<open>Examples: a structured book whose output file exists already, and one that is new.\<close>

definition fs_done :: fs where
  "fs_done =
     [([''input''], Dir), ([''input'', ''Jane Doe''], Dir),
      ([''input'', ''Jane Doe'', ''My Book''], Dir),
      ([''input'', ''Jane Doe'', ''My Book'', ''01.mp3''], File (Probed NoTags)),
      ([''output''], Dir), ([''output'', ''Jane Doe''], Dir),
      ([''output'', ''Jane Doe'', ''My Book''], Dir),
      ([''output'', ''Jane Doe'', ''My Book'', ''My Book.m4b''], File ProbeNone),
      ([''temp''], Dir)]"

definition fs_new :: fs where
  "fs_new =
     [([''input''], Dir), ([''input'', ''Jane Doe''], Dir),
      ([''input'', ''Jane Doe'', ''My Book''], Dir),
      ([''input'', ''Jane Doe'', ''My Book'', ''01.mp3''], File (Probed NoTags)),
      ([''output''], Dir), ([''temp''], Dir)]"

text \<open>The entries below a directory, with their paths relative to it.\<close>

definition subtree :: "fs \<Rightarrow> path \<Rightarrow> (path \<times> node) list" where
  "subtree fs p =
     map (\<lambda>e. (drop (length p) (fst e), snd e)) (filter (\<lambda>e. strict_prefix p (fst e)) fs)"

text \<open>
  A tagging tool that exits with status 1, leaves the directory as it is and leaves its
  library file behind, and a transcoder that times out after it began to write its output.
\<close>

definition failing_tools :: tools where
  "failing_tools =
     \<lparr>beet = (\<lambda>fs p. \<lparr>beet_result = Exited 1, beet_tree = subtree fs p,
                          beet_library_written = True\<rparr>),
      ffmpeg = (\<lambda>fs a. \<lparr>ffmpeg_result = TimedOut, ffmpeg_output = Some ProbeNone\<rparr>)\<rparr>"

text \<open>
  The states of the new book's job: after the output directories are created, after staging,
  and when the transcoder has timed out.
\<close>

definition fs_planned :: fs where
  "fs_planned =
     [([''output'', ''Jane Doe'', ''My Book''], Dir), ([''output'', ''Jane Doe''], Dir),
      ([''input''], Dir), ([''input'', ''Jane Doe''], Dir),
      ([''input'', ''Jane Doe'', ''My Book''], Dir),
      ([''input'', ''Jane Doe'', ''My Book'', ''01.mp3''], File (Probed NoTags)),
      ([''output''], Dir), ([''temp''], Dir)]"

definition fs_staged :: fs where
  "fs_staged =
     [([''temp'', ''processing_My Book'', ''01.mp3''], File (Probed NoTags)),
      ([''temp'', ''processing_My Book''], Dir)] @ fs_planned"

definition fs_failed :: fs where
  "fs_failed =
     [([''temp'', ''My Book.m4b''], File ProbeNone),
      ([''temp'', ''processing_My Book_files.txt''], File ProbeNone)] @ fs_staged"

text \<open>
  The configuration with the sanitizer switched off, and an audio file whose tags name an
  artist and an album.
\<close>

definition raw_config :: config where
  "raw_config = default_config\<lparr>sanitize_names := False\<rparr>"

definition tagged :: "string \<Rightarrow> string \<Rightarrow> probe" where
  "tagged a b = Probed (DictTags [(''TIT2'', [''T'']), (''TPE1'', [a]), (''TALB'', [b])])"

definition fs_tagged :: "string \<Rightarrow> string \<Rightarrow> fs" where
  "fs_tagged a b =
     [([''input''], Dir), ([''input'', ''Book''], Dir),
      ([''input'', ''Book'', ''01.mp3''], File (tagged a b)),
      ([''output''], Dir), ([''temp''], Dir)]"

text \<open>
  The job of a book whose album tag is \<^verbatim>\<open>/output/x\<close>, with the sanitizer switched off:
  after the planner, after staging, and when the transcoder has timed out.
\<close>

definition fs_raw_planned :: fs where
  "fs_raw_planned = ([''output'', ''x''], Dir) # fs_tagged ''A'' ''/output/x''"

definition fs_raw_staged :: fs where
  "fs_raw_staged =
     [([''temp'', ''processing_Book'', ''01.mp3''], File (tagged ''A'' ''/output/x'')),
      ([''temp'', ''processing_Book''], Dir)] @ fs_raw_planned"

definition fs_raw_failed :: fs where
  "fs_raw_failed =
     [([''output'', ''x.m4b''], File ProbeNone),
      ([''temp'', ''processing_Book_files.txt''], File ProbeNone)] @ fs_raw_staged"

text \<open>
  A book whose album tag is \<^verbatim>\<open>/temp/x\<close>, in a tree that holds the file
  \<^verbatim>\<open>/temp/x.m4b\<close>.
\<close>

definition fs_temp_album :: fs where
  "fs_temp_album = ([''temp'', ''x.m4b''], File ProbeNone) # fs_tagged ''A'' ''/temp/x''"

text \<open>A tree in which the name of the tagging tool's library file is taken by a directory.\<close>

definition fs_library_taken :: fs where
  "fs_library_taken = ([''temp'', ''beets_processing_My Book.db''], Dir) # fs_new"

text \<open>
  A tagging tool that exits with status 1, and a transcoder that succeeds when it is given
  the metadata of the example book and fails otherwise.
\<close>

definition untagged_tools :: tools where
  "untagged_tools =
     \<lparr>beet = (\<lambda>fs p. \<lparr>beet_result = Exited 1, beet_tree = subtree fs p,
                          beet_library_written = True\<rparr>),
      ffmpeg = (\<lambda>fs a.
         if arg_title a = ''My Book'' \<and> arg_artist a = ''Jane Doe'' \<and> arg_album a = ''My Book''
         then \<lparr>ffmpeg_result = Exited 0, ffmpeg_output = Some (Probed NoTags)\<rparr>
         else \<lparr>ffmpeg_result = Exited 1, ffmpeg_output = None\<rparr>)\<rparr>"

text \<open>
  From \<open>fs\<close> to \<open>fs'\<close> nothing changed outside the directory \<open>t\<close>, except that
  directories were created where nothing was.
\<close>

definition confined :: "path \<Rightarrow> fs \<Rightarrow> fs \<Rightarrow> bool" where
  "confined t fs fs' =
     (\<forall>q. entry fs' q = entry fs q \<or> prefix t q
          \<or> (entry fs q = None \<and> entry fs' q = Some Dir))"

text \<open>From \<open>fs\<close> to \<open>fs'\<close> directories were created where nothing was, and nothing else
  changed.\<close>

definition grown :: "fs \<Rightarrow> fs \<Rightarrow> bool" where
  "grown fs fs' = (\<forall>q. entry fs' q = entry fs q \<or> (entry fs q = None \<and> entry fs' q = Some Dir))"

text \<open>The path and all its parents are directories of the tree.\<close>

definition dir_at :: "fs \<Rightarrow> path \<Rightarrow> bool" where
  "dir_at fs p = list_all (\<lambda>q. entry fs q = Some Dir) (prefixes p)"

section \<open>Lemmas on strings and paths\<close>

lemma set_collapse_ws: "set (collapse_ws s) \<subseteq> insert (CHR '' '') (set s)"
proof (induction s rule: collapse_ws.induct)
  case 1
  then show ?case by simp
next
  case (2 c cs)
  have "set (dropWhile isspace cs) \<subseteq> set cs"
    by (rule set_dropWhileD [THEN subsetI])
  with 2 show ?case by auto
qed

lemma set_rstrip: "set (rstrip s) \<subseteq> set s"
  unfolding rstrip_def using set_dropWhileD [of _ isspace "rev s"] by auto

lemma set_lstrip: "set (lstrip s) \<subseteq> set s"
  unfolding lstrip_def using set_dropWhileD [of _ isspace s] by auto

lemma set_strip: "set (strip s) \<subseteq> set s"
  unfolding strip_def using set_rstrip set_lstrip by blast

lemma length_rstrip: "length (rstrip s) \<le> length s"
  unfolding rstrip_def using length_dropWhile_le [of isspace "rev s"] by simp

lemma set_slice_to: "set (slice_to n xs) \<subseteq> set xs"
  unfolding slice_to_def by (auto dest: in_set_takeD)

lemma length_slice_to: "0 \<le> n \<Longrightarrow> int (length (slice_to n xs)) \<le> n"
  unfolding slice_to_def by simp

lemma space_not_reserved: "CHR '' '' \<notin> set reserved_chars"
  by (simp add: reserved_chars_def)

lemma set_strip_reserved: "set (strip_reserved s) \<inter> set reserved_chars = {}"
  unfolding strip_reserved_def by auto

lemma sanitize_set:
  assumes "sanitize_names cfg"
  shows "set (sanitize_filename cfg s) \<subseteq> insert (CHR '' '') (set (strip_reserved s))"
proof -
  let ?f2 = "strip (collapse_ws (strip_reserved s))"
  have f2: "set ?f2 \<subseteq> insert (CHR '' '') (set (strip_reserved s))"
    using set_strip [of "collapse_ws (strip_reserved s)"] set_collapse_ws [of "strip_reserved s"]
    by blast
  have "set (rstrip (slice_to (max_filename_length cfg) ?f2)) \<subseteq> set ?f2"
    using set_rstrip [of "slice_to (max_filename_length cfg) ?f2"]
      set_slice_to [of "max_filename_length cfg" ?f2] by blast
  with f2 assms show ?thesis
    by (auto simp: sanitize_filename_def Let_def)
qed

lemma sanitize_no_reserved:
  assumes "sanitize_names cfg"
  shows "set (sanitize_filename cfg s) \<inter> set reserved_chars = {}"
  using sanitize_set [OF assms, of s] set_strip_reserved [of s] space_not_reserved by auto

lemma sanitize_length:
  assumes "sanitize_names cfg" "0 \<le> max_filename_length cfg"
  shows "int (length (sanitize_filename cfg s)) \<le> max_filename_length cfg"
proof -
  let ?f2 = "strip (collapse_ws (strip_reserved s))"
  let ?m = "max_filename_length cfg"
  have "int (length (rstrip (slice_to ?m ?f2))) \<le> ?m"
    using length_rstrip [of "slice_to ?m ?f2"] length_slice_to [OF assms(2), of ?f2] by linarith
  with assms show ?thesis
    by (auto simp: sanitize_filename_def Let_def)
qed

lemma sanitize_empty: "sanitize_filename cfg [] = []"
  by (simp add: sanitize_filename_def strip_reserved_def strip_def lstrip_def rstrip_def
      slice_to_def Let_def)

lemma path_name_nonempty:
  assumes "[] \<notin> set p" "p \<noteq> []"
  shows "path_name p \<noteq> []"
  using assms by (metis last_in_set path_name_def)

lemma parent_name_nonempty:
  assumes "[] \<notin> set p" "strict_prefix d p \<or> 2 \<le> length p" "path_parent p \<noteq> d"
  shows "path_name (path_parent p) \<noteq> []"
proof -
  have ne: "butlast p \<noteq> []"
  proof
    assume e: "butlast p = []"
    show False
    proof (cases "2 \<le> length p")
      case True
      then show ?thesis using e by (cases p) (auto split: if_splits)
    next
      case False
      with assms(2) have "strict_prefix d p" by simp
      then obtain z zs where "p = d @ z # zs"
        by (auto simp: strict_prefix_def prefix_def) (metis list.exhaust)
      with e have "d = []" by (cases d) (auto split: if_splits)
      with e assms(3) show False by (simp add: path_parent_def)
    qed
  qed
  then have "last (butlast p) \<in> set (butlast p)" by simp
  then have "last (butlast p) \<in> set p" by (rule in_set_butlastD)
  with assms(1) ne show ?thesis by (auto simp: path_name_def path_parent_def)
qed

lemma truthy_value_of: "truthy x \<Longrightarrow> value_of x \<noteq> []"
  by (cases x) auto

section \<open>Lemmas on metadata resolution\<close>

lemma resolve_fields_artist: "artist (resolve_fields cfg p f) \<noteq> []"
  by (cases f)
    (auto simp: resolve_fields_def final_fallback_def structure_fallback_def Let_def
      split: structure_info.splits prod.splits if_splits dest: truthy_value_of)

lemma resolve_fields_title:
  assumes "path_name p \<noteq> []"
  shows "title (resolve_fields cfg p f) \<noteq> []"
  using assms
  by (cases f)
    (auto simp: resolve_fields_def final_fallback_def structure_fallback_def Let_def
      split: structure_info.splits prod.splits if_splits dest: truthy_value_of)

lemma fallback_metadata_eq:
  "fallback_metadata cfg p =
     (if path_parent p \<noteq> input_dir cfg
      then \<lparr>title = path_name p, artist = path_name (path_parent p),
            album = path_name p, year = None\<rparr>
      else \<lparr>title = path_name p, artist = ''Unknown Author'',
            album = path_name p, year = None\<rparr>)"
  by (simp add: fallback_metadata_def detect_input_structure_def)

lemma extract_cases:
  assumes "extract_metadata_from_files cfg fs p = Some m"
  shows "m = fallback_metadata cfg p \<or> (\<exists>f. m = resolve_fields cfg p f)"
  using assms
  by (auto simp: extract_metadata_from_files_def split: list.splits probe.splits sum.splits)

lemma extract_tagless:
  assumes "tagless fs p"
  shows "extract_metadata_from_files cfg fs p
           = Some (resolve_fields cfg p (None, None, None, None))"
  using assms
  by (auto simp: tagless_def extract_metadata_from_files_def read_tags_def
      split: list.splits probe.splits)

lemma extract_tag_fields:
  assumes "tag_fields fs p = Some f"
  shows "extract_metadata_from_files cfg fs p = Some (resolve_fields cfg p f)"
  using assms
  by (auto simp: tag_fields_def extract_metadata_from_files_def
      split: list.splits probe.splits sum.splits)

lemma resolve_fields_values:
  "artist (resolve_fields cfg p (ti, ar, al, yr)) =
     (if truthy (clean ar) then value_of (clean ar)
      else (case detect_input_structure cfg p of
              Structured author book \<Rightarrow> if author \<noteq> [] then author else ''Unknown Author''
            | Flat book \<Rightarrow> ''Unknown Author''))"
  "title (resolve_fields cfg p (ti, ar, al, yr)) =
     (if truthy (clean ti) then value_of (clean ti) else path_name p)"
  "album (resolve_fields cfg p (ti, ar, al, yr)) =
     (if truthy (clean al) then value_of (clean al)
      else title (resolve_fields cfg p (ti, ar, al, yr)))"
  by (auto simp: resolve_fields_def final_fallback_def structure_fallback_def Let_def
      detect_input_structure_def split: structure_info.splits prod.splits if_splits)

section \<open>Lemmas on joined paths\<close>

lemma split_slash_no_slash: "CHR ''/'' \<notin> set s \<Longrightarrow> split_slash s = [s]"
  by (induction s) auto

lemma pjoin_component:
  assumes "CHR ''/'' \<notin> set s" "s \<noteq> []" "s \<noteq> ''.''"
  shows "pjoin p s = p @ [s]"
  using assms by (cases s) (auto simp: pjoin_def parts_def split_slash_no_slash)

lemma temp_book_path_eq:
  assumes "CHR ''/'' \<notin> set (path_name p)"
  shows "temp_book_path cfg p = temp_dir cfg @ [''processing_'' @ path_name p]"
  unfolding temp_book_path_def using assms by (intro pjoin_component) auto

lemma path_name_snoc: "path_name (p @ [s]) = s"
  by (simp add: path_name_def)

lemma beets_config_file_eq:
  assumes "CHR ''/'' \<notin> set (path_name p)"
  shows "beets_config_file cfg p = temp_dir cfg @ [''beets_config_'' @ path_name p @ ''.yaml'']"
  unfolding beets_config_file_def using assms by (intro pjoin_component) auto

lemma beets_library_eq:
  assumes "CHR ''/'' \<notin> set (path_name p)"
  shows "beets_library cfg p = temp_dir cfg @ [''beets_'' @ path_name p @ ''.db'']"
  unfolding beets_library_def using assms by (intro pjoin_component) auto

lemma file_list_path_eq:
  assumes "CHR ''/'' \<notin> set (path_name p)"
  shows "file_list_path cfg p = temp_dir cfg @ [path_name p @ ''_files.txt'']"
proof -
  have "path_name p @ ''_files.txt'' \<noteq> ''.''" by (cases "path_name p") auto
  with assms show ?thesis
    unfolding file_list_path_def by (intro pjoin_component) auto
qed

lemma staged_name:
  assumes "CHR ''/'' \<notin> set (path_name p)"
  shows "path_name (temp_book_path cfg p) = ''processing_'' @ path_name p"
    and "CHR ''/'' \<notin> set (path_name (temp_book_path cfg p))"
  using assms by (simp_all add: temp_book_path_eq path_name_snoc)

section \<open>Lemmas on entries and resolution\<close>

lemma entry_root [simp]: "entry fs [] = Some Dir"
  by (simp add: entry_def)

lemma entry_Cons:
  "entry ((p, n) # fs) q = (if q = [] then Some Dir else if q = p then Some n else entry fs q)"
  by (simp add: entry_def)

lemma entry_append:
  "entry (xs @ fs) q =
     (if q = [] then Some Dir
      else (case map_of xs q of Some n \<Rightarrow> Some n | None \<Rightarrow> entry fs q))"
  by (auto simp: entry_def map_add_def split: option.splits)

lemma map_of_filter_key:
  "map_of (filter (\<lambda>e. P (fst e)) xs) q = (if P q then map_of xs q else None)"
  by (induction xs) auto

lemma entry_remove_tree:
  "entry (remove_tree p fs) q = (if q \<noteq> [] \<and> prefix p q then None else entry fs q)"
  using map_of_filter_key [of "\<lambda>k. \<not> prefix p k" fs q]
  by (simp add: entry_def remove_tree_def)

lemma entry_remove_entry:
  "entry (remove_entry p fs) q = (if q \<noteq> [] \<and> q = p then None else entry fs q)"
  using map_of_filter_key [of "\<lambda>k. k \<noteq> p" fs q]
  by (auto simp: entry_def remove_entry_def)

lemma map_of_rebase_outside:
  assumes "\<not> prefix dst q"
  shows "map_of (rebase src dst fs) q = None"
proof -
  have "q \<notin> fst ` set (rebase src dst fs)"
    using assms by (auto simp: rebase_def)
  then show ?thesis by (simp add: map_of_eq_None_iff)
qed

lemma plain_append [simp]: "plain (p @ q) \<longleftrightarrow> plain p \<and> plain q"
  by (auto simp: plain_def)

lemma plain_Nil [simp]: "plain []"
  by (simp add: plain_def)

lemma plain_Cons [simp]: "plain (c # p) \<longleftrightarrow> c \<noteq> ''..'' \<and> plain p"
  by (auto simp: plain_def)


lemma plain_butlast: "plain p \<Longrightarrow> plain (butlast p)"
  by (auto simp: plain_def dest: in_set_butlastD)

text \<open>Resolution of a path without \<^verbatim>\<open>..\<close> gives the path itself, if it gives one.\<close>

lemma resolve_from_plain:
  assumes "plain cs" "resolve_from fs d cs = Inr r"
  shows "r = d @ cs"
  using assms
proof (induction cs arbitrary: d)
  case Nil
  then show ?case by simp
next
  case (Cons a cs)
  from Cons.prems have a: "a \<noteq> ''..''" and cs: "plain cs" by simp_all
  from Cons.prems(2) a have "resolve_from fs (d @ [a]) cs = Inr r"
    by (auto simp: step_def split: option.splits node.splits)
  from Cons.IH [OF cs this] show ?case by simp
qed

lemma resolve_plain:
  assumes "plain p" "resolve fs p = Inr r"
  shows "r = p"
  using resolve_from_plain [OF assms(1), of fs "[]" r] assms(2) by (simp add: resolve_def)

lemma resolve_from_append:
  "resolve_from fs d (xs @ ys) =
     (case resolve_from fs d xs of Inl e \<Rightarrow> Inl e | Inr r \<Rightarrow> resolve_from fs r ys)"
  by (induction xs arbitrary: d) (auto split: option.splits node.splits)

lemma resolve_snoc:
  "resolve fs (p @ [c]) =
     (case resolve fs p of
        Inl e \<Rightarrow> Inl e
      | Inr r \<Rightarrow>
          (case entry fs r of
             None \<Rightarrow> Inl FileNotFoundError
           | Some (File x) \<Rightarrow> Inl NotADirectoryError
           | Some Dir \<Rightarrow> Inr (step r c)))"
  by (auto simp: resolve_def resolve_from_append split: sum.splits option.splits node.splits)

lemma resolve_Nil [simp]: "resolve fs [] = Inr []"
  by (simp add: resolve_def)

lemma lookup_root [simp]: "lookup fs [] = Some Dir"
  by (simp add: lookup_def)

text \<open>Where a path is found, its parent is a directory.\<close>

lemma lookup_snoc_parent:
  assumes "lookup fs (p @ [c]) \<noteq> None"
  shows "lookup fs p = Some Dir"
  using assms
  by (auto simp: lookup_def resolve_snoc split: sum.splits option.splits node.splits)

lemma lookup_dir_snoc:
  assumes "lookup fs p = Some Dir" "c \<noteq> ''..''"
  shows "\<exists>r. resolve fs p = Inr r \<and> resolve fs (p @ [c]) = Inr (r @ [c])"
  using assms
  by (auto simp: lookup_def resolve_snoc step_def split: sum.splits)

lemma lookup_plain:
  assumes "plain p"
  shows "lookup fs p = None \<or> (resolve fs p = Inr p \<and> lookup fs p = entry fs p)"
proof (cases "resolve fs p")
  case (Inl e)
  then show ?thesis by (simp add: lookup_def)
next
  case (Inr r)
  with resolve_plain [OF assms Inr] show ?thesis by (simp add: lookup_def)
qed

lemma lookup_plain_Some:
  assumes "plain p" "lookup fs p = Some n"
  shows "resolve fs p = Inr p" and "entry fs p = Some n"
  using lookup_plain [OF assms(1), of fs] assms(2) by auto

lemma resolve_plain_dir_snoc:
  assumes "resolve fs p = Inr p" "entry fs p = Some Dir" "c \<noteq> ''..''"
  shows "resolve fs (p @ [c]) = Inr (p @ [c])"
  using assms by (simp add: resolve_snoc step_def)

section \<open>Lemmas on the filesystem operations\<close>

lemma grown_refl: "grown fs fs"
  by (simp add: grown_def)

lemma grown_trans:
  assumes "grown fs fs1" "grown fs1 fs2"
  shows "grown fs fs2"
  unfolding grown_def
proof
  fix q
  from assms(1) have a: "entry fs1 q = entry fs q \<or> (entry fs q = None \<and> entry fs1 q = Some Dir)"
    by (simp add: grown_def)
  from assms(2) have b: "entry fs2 q = entry fs1 q \<or> (entry fs1 q = None \<and> entry fs2 q = Some Dir)"
    by (simp add: grown_def)
  from a b show "entry fs2 q = entry fs q \<or> (entry fs q = None \<and> entry fs2 q = Some Dir)"
    by auto
qed

lemma grown_keeps:
  assumes "grown fs fs1" "entry fs q = Some n"
  shows "entry fs1 q = Some n"
proof -
  from assms(1) have "entry fs1 q = entry fs q \<or> (entry fs q = None \<and> entry fs1 q = Some Dir)"
    by (simp add: grown_def)
  with assms(2) show ?thesis by auto
qed

lemma grown_resolve_from:
  assumes "grown fs fs1" "resolve_from fs d cs = Inr r"
  shows "resolve_from fs1 d cs = Inr r"
  using assms(2)
proof (induction cs arbitrary: d)
  case Nil
  then show ?case by simp
next
  case (Cons c cs)
  from Cons.prems have d: "entry fs d = Some Dir" and rest: "resolve_from fs (step d c) cs = Inr r"
    by (auto split: option.splits node.splits)
  from grown_keeps [OF assms(1) d] Cons.IH [OF rest] show ?case by simp
qed

lemma grown_resolve:
  assumes "grown fs fs1" "resolve fs p = Inr r"
  shows "resolve fs1 p = Inr r"
  using grown_resolve_from [OF assms(1)] assms(2) by (simp add: resolve_def)

lemma grown_lookup:
  assumes "grown fs fs1" "lookup fs p = Some n"
  shows "lookup fs1 p = Some n"
proof -
  from assms(2) obtain r where r: "resolve fs p = Inr r" "entry fs r = Some n"
    by (auto simp: lookup_def split: sum.splits)
  from grown_resolve [OF assms(1) r(1)] grown_keeps [OF assms(1) r(2)] show ?thesis
    by (simp add: lookup_def)
qed

lemma os_mkdir_Inr:
  assumes "os_mkdir fs p = Inr fs1"
  shows "\<exists>r. resolve fs p = Inr r \<and> entry fs r = None \<and> r \<noteq> [] \<and> fs1 = (r, Dir) # fs"
  using assms by (auto simp: os_mkdir_def split: sum.splits if_splits)

lemma os_mkdir_grown:
  assumes "os_mkdir fs p = Inr fs1"
  shows "grown fs fs1"
proof -
  from os_mkdir_Inr [OF assms] obtain r where r: "entry fs r = None" "fs1 = (r, Dir) # fs"
    by blast
  then show ?thesis by (auto simp: grown_def entry_Cons)
qed


lemma mkdir_parents_unfold:
  "mkdir_parents fs p =
     (case os_mkdir fs p of
        Inr fs1 \<Rightarrow> Inr fs1
      | Inl e \<Rightarrow>
          if e = FileNotFoundError \<and> p \<noteq> []
          then (case mkdir_parents fs (butlast p) of
                  Inl x \<Rightarrow> Inl x
                | Inr fs1 \<Rightarrow>
                    (case os_mkdir fs1 p of
                       Inr fs2 \<Rightarrow> Inr fs2
                     | Inl e2 \<Rightarrow>
                         if e2 \<noteq> FileNotFoundError \<and> lookup fs1 p = Some Dir then Inr fs1
                         else Inl (e2, fs1)))
          else if e \<noteq> FileNotFoundError \<and> lookup fs p = Some Dir then Inr fs
          else Inl (e, fs))"
  by (rule mkdir_parents.simps)

declare mkdir_parents.simps [simp del]

lemma mkdir_parents_grown:
  "(mkdir_parents fs p = Inr fs1 \<longrightarrow> grown fs fs1)
   \<and> (mkdir_parents fs p = Inl (e, fs1) \<longrightarrow> grown fs fs1)"
proof (induction fs p arbitrary: fs1 e rule: mkdir_parents.induct)
  case (1 fs p)
  show ?case
  proof (cases "os_mkdir fs p")
    case (Inr fsa)
    then show ?thesis
      using os_mkdir_grown [OF Inr] by (subst (1 2) mkdir_parents_unfold) auto
  next
    case (Inl x)
    show ?thesis
    proof (cases "x = FileNotFoundError \<and> p \<noteq> []")
      case False
      with Inl show ?thesis
        by (subst (1 2) mkdir_parents_unfold) (auto simp: grown_refl)
    next
      case True
      note ih = "1.IH" [OF Inl True]
      show ?thesis
      proof (cases "mkdir_parents fs (butlast p)")
        case a: (Inl y)
        obtain e' fs' where y: "y = (e', fs')" by (cases y)
        from ih [of fs' e'] a y have "grown fs fs'" by simp
        with Inl True a y show ?thesis
          by (subst (1 2) mkdir_parents_unfold) auto
      next
        case b: (Inr fsa)
        from ih [of fsa] b have g: "grown fs fsa" by simp
        show ?thesis
        proof (cases "os_mkdir fsa p")
          case c: (Inl e2)
          with Inl True b g show ?thesis
            by (subst (1 2) mkdir_parents_unfold) auto
        next
          case c: (Inr fsb)
          from grown_trans [OF g os_mkdir_grown [OF c]] Inl True b c show ?thesis
            by (subst (1 2) mkdir_parents_unfold) auto
        qed
      qed
    qed
  qed
qed


lemma mkdir_parents_existing:
  assumes "lookup fs p = Some Dir"
  shows "mkdir_parents fs p = Inr fs"
proof -
  from assms obtain r where "resolve fs p = Inr r" "entry fs r = Some Dir"
    by (auto simp: lookup_def split: sum.splits)
  then have "os_mkdir fs p = Inl FileExistsError" by (simp add: os_mkdir_def)
  with assms show ?thesis by (subst mkdir_parents_unfold) simp
qed

text \<open>The directories on the way to a resolved path.\<close>

lemma resolve_from_plain_dirs:
  assumes "plain cs" "resolve_from fs d cs = Inr r" "strict_prefix xs cs"
  shows "entry fs (d @ xs) = Some Dir"
  using assms
proof (induction cs arbitrary: d xs)
  case Nil
  then show ?case by simp
next
  case (Cons a cs)
  from Cons.prems(1) have a: "a \<noteq> ''..''" and cs: "plain cs" by simp_all
  from Cons.prems(2) a have d: "entry fs d = Some Dir"
    and rest: "resolve_from fs (d @ [a]) cs = Inr r"
    by (auto simp: step_def split: option.splits node.splits)
  show ?case
  proof (cases xs)
    case Nil
    with d show ?thesis by simp
  next
    case (Cons x xs')
    with Cons.prems(3) have "x = a" "strict_prefix xs' cs" by simp_all
    with Cons.IH [OF cs rest, of xs'] Cons show ?thesis by simp
  qed
qed

lemma lookup_plain_ancestors:
  assumes "plain p" "lookup fs p \<noteq> None" "strict_prefix q p"
  shows "entry fs q = Some Dir"
proof -
  from assms(2) obtain r where "resolve fs p = Inr r"
    by (auto simp: lookup_def split: sum.splits)
  then have "resolve_from fs [] p = Inr r" by (simp add: resolve_def)
  from resolve_from_plain_dirs [OF assms(1) this assms(3)] show ?thesis by simp
qed

lemma lookup_plain_prefix_dirs:
  assumes "plain p" "lookup fs p = Some Dir" "prefix q p"
  shows "entry fs q = Some Dir"
proof (cases "q = p")
  case True
  with lookup_plain_Some(2) [OF assms(1,2)] show ?thesis by simp
next
  case False
  with assms(3) have "strict_prefix q p" by (simp add: strict_prefix_def)
  with assms(1,2) show ?thesis by (intro lookup_plain_ancestors [of p fs q]) simp_all
qed

lemma entry_rmtree:
  assumes "rmtree fs p = Inr fs1" "plain p"
  shows "entry fs1 q = (if q \<noteq> [] \<and> prefix p q then None else entry fs q)"
    and "entry fs p = Some Dir"
proof -
  from assms(1) obtain r where r: "resolve fs p = Inr r" "entry fs r = Some Dir"
    "fs1 = remove_tree r fs"
    by (auto simp: rmtree_def split: sum.splits option.splits node.splits)
  from resolve_plain [OF assms(2) r(1)] have "r = p" .
  with r show "entry fs1 q = (if q \<noteq> [] \<and> prefix p q then None else entry fs q)"
    and "entry fs p = Some Dir"
    by (simp_all add: entry_remove_tree)
qed

lemma rmtree_dir:
  assumes "lookup fs p = Some Dir" "plain p"
  shows "rmtree fs p = Inr (remove_tree p fs)"
  using lookup_plain_Some [OF assms(2,1)] by (simp add: rmtree_def)

lemma write_file_Inr:
  assumes "write_file fs p c = Inr fs1" "plain p"
  shows "resolve fs p = Inr p" and "entry fs p \<noteq> Some Dir" and "p \<noteq> []"
    and "fs1 = (p, File c) # remove_entry p fs"
proof -
  from assms(1) obtain r where r: "resolve fs p = Inr r" "entry fs r \<noteq> Some Dir"
    "fs1 = (r, File c) # remove_entry r fs"
    by (auto simp: write_file_def split: sum.splits if_splits)
  from resolve_plain [OF assms(2) r(1)] have rp: "r = p" .
  with r show "resolve fs p = Inr p" "entry fs p \<noteq> Some Dir"
    "fs1 = (p, File c) # remove_entry p fs" by simp_all
  from r(2) rp show "p \<noteq> []" by auto
qed

lemma entry_write_file:
  assumes "write_file fs p c = Inr fs1" "plain p"
  shows "entry fs1 q = (if q = p then Some (File c) else entry fs q)"
  using write_file_Inr(3,4) [OF assms]
  by (auto simp: entry_Cons entry_remove_entry)

lemma write_file_ok:
  assumes "resolve fs p = Inr p" "entry fs p \<noteq> Some Dir"
  shows "write_file fs p c = Inr ((p, File c) # remove_entry p fs)"
  using assms by (simp add: write_file_def)

lemma unlink_cases:
  assumes "unlink_missing_ok fs p = Inr fs1" "plain p"
  shows "fs1 = fs \<or> (entry fs p \<noteq> Some Dir \<and> p \<noteq> [] \<and> fs1 = remove_entry p fs)"
proof (cases "resolve fs p")
  case (Inl e)
  with assms(1) show ?thesis by (auto simp: unlink_missing_ok_def split: if_splits)
next
  case (Inr r)
  from resolve_plain [OF assms(2) Inr] have "r = p" .
  with Inr assms(1) show ?thesis by (auto simp: unlink_missing_ok_def split: if_splits)
qed

lemma entry_unlink:
  assumes "unlink_missing_ok fs p = Inr fs1" "plain p" "q \<noteq> p"
  shows "entry fs1 q = entry fs q"
  using unlink_cases [OF assms(1,2)] assms(3) by (auto simp: entry_remove_entry)

lemma unlink_ok:
  assumes "resolve fs p = Inr p" "entry fs p \<noteq> Some Dir"
  shows "unlink_missing_ok fs p = Inr (remove_entry p fs)"
  using assms by (simp add: unlink_missing_ok_def)

section \<open>Lemmas on the paths of a job\<close>

lemma sanitize_no_slash:
  assumes "sanitize_names cfg"
  shows "CHR ''/'' \<notin> set (sanitize_filename cfg s)"
  using sanitize_no_reserved [OF assms, of s] by (auto simp: reserved_chars_def)



lemma final_path_eq:
  assumes "sanitize_names cfg"
  shows "pjoin d (m4b_filename cfg m) = d @ [m4b_filename cfg m]"
proof -
  have "CHR ''/'' \<notin> set (m4b_filename cfg m)"
    using sanitize_no_slash [OF assms] by (simp add: m4b_filename_def)
  moreover have "m4b_filename cfg m \<noteq> []" "m4b_filename cfg m \<noteq> ''.''"
    by (simp_all add: m4b_filename_def)
  ultimately show ?thesis by (rule pjoin_component)
qed

lemma m4b_filename_not_dotdot: "m4b_filename cfg m \<noteq> ''..''"
proof
  assume "m4b_filename cfg m = ''..''"
  then have "length (m4b_filename cfg m) = 2" by simp
  then show False by (simp add: m4b_filename_def)
qed



lemma create_output_structure_eq:
  "create_output_structure cfg fs m t =
     (case mkdir_parents fs (output_book_dir cfg m) of
        Inl x \<Rightarrow> Inl x
      | Inr fs1 \<Rightarrow> Inr ((output_book_dir cfg m, m4b_filename cfg m), fs1))"
  unfolding create_output_structure_def output_book_dir_def m4b_filename_def Let_def
  by (rule refl)

lemma sort_eq_Nil: "sort xs = [] \<longleftrightarrow> xs = []"
  by (metis length_sort length_0_conv)

lemma audio_files_dir:
  assumes "audio_files fs p \<noteq> []"
  shows "lookup fs p = Some Dir"
  using assms
  by (auto simp: audio_files_def glob_suffix_def sort_eq_Nil lookup_def
      split: if_splits sum.splits)

lemma extract_Some_dir:
  assumes "extract_metadata_from_files cfg fs p = Some m"
  shows "lookup fs p = Some Dir"
proof -
  from assms have "audio_files fs p \<noteq> []"
    by (auto simp: extract_metadata_from_files_def)
  then show ?thesis by (rule audio_files_dir)
qed

lemma unrelated_prefix:
  assumes "unrelated p t" "prefix t q"
  shows "\<not> prefix p q"
proof
  assume "prefix p q"
  then have "prefix p t \<or> prefix t p" using assms(2) by (rule prefix_same_cases)
  with assms(1) show False by (auto simp: unrelated_def)
qed


lemma path_parent_snoc: "path_parent (p @ [s]) = p"
  by (simp add: path_parent_def)

text \<open>The scratch paths of the staged copy of a source directory with a proper name.\<close>

lemma staged_paths:
  assumes "CHR ''/'' \<notin> set (path_name p)"
  shows "temp_book_path cfg p = temp_dir cfg @ [''processing_'' @ path_name p]"
    and "beets_config_file cfg (temp_book_path cfg p)
           = temp_dir cfg @ [''beets_config_processing_'' @ path_name p @ ''.yaml'']"
    and "beets_library cfg (temp_book_path cfg p)
           = temp_dir cfg @ [''beets_processing_'' @ path_name p @ ''.db'']"
    and "file_list_path cfg (temp_book_path cfg p)
           = temp_dir cfg @ [''processing_'' @ path_name p @ ''_files.txt'']"
  using staged_name [OF assms, of cfg]
  by (simp_all add: temp_book_path_eq [OF assms] beets_config_file_eq beets_library_eq
      file_list_path_eq)

lemma staged_prefixes:
  assumes "CHR ''/'' \<notin> set (path_name p)"
  shows "prefix (temp_dir cfg) (temp_book_path cfg p)"
    and "prefix (temp_dir cfg) (beets_library cfg (temp_book_path cfg p))"
    and "prefix (temp_dir cfg) (beets_config_file cfg (temp_book_path cfg p))"
    and "prefix (temp_dir cfg) (file_list_path cfg (temp_book_path cfg p))"
  by (simp_all only: staged_paths(2,3,4) [OF assms] prefixI)
    (simp_all add: staged_paths(1) [OF assms])

lemma staged_plain:
  assumes "CHR ''/'' \<notin> set (path_name p)" "plain (temp_dir cfg)"
  shows "plain (temp_book_path cfg p)"
    and "plain (beets_library cfg (temp_book_path cfg p))"
    and "plain (beets_config_file cfg (temp_book_path cfg p))"
    and "plain (file_list_path cfg (temp_book_path cfg p))"
  using assms(2)
  by (simp_all only: staged_paths(2,3,4) [OF assms(1)])
    (simp_all add: staged_paths(1) [OF assms(1)])

lemma output_file_eq:
  assumes "sanitize_names cfg"
  shows "pjoin (temp_dir cfg) (m4b_filename cfg m) = temp_dir cfg @ [m4b_filename cfg m]"
  by (rule final_path_eq [OF assms])

section \<open>Directories and resolution\<close>

lemma resolve_from_plain_ok:
  assumes "plain cs" "\<forall>xs. strict_prefix xs cs \<longrightarrow> entry fs (d @ xs) = Some Dir"
  shows "resolve_from fs d cs = Inr (d @ cs)"
  using assms
proof (induction cs arbitrary: d)
  case Nil
  then show ?case by simp
next
  case (Cons a cs)
  from Cons.prems(1) have a: "a \<noteq> ''..''" and cs: "plain cs" by simp_all
  from Cons.prems(2) [rule_format, of "[]"] have d: "entry fs d = Some Dir" by simp
  have "\<forall>xs. strict_prefix xs cs \<longrightarrow> entry fs ((d @ [a]) @ xs) = Some Dir"
    using Cons.prems(2) [rule_format, of "a # xs" for xs] by simp
  from Cons.IH [OF cs this] d a show ?case by (simp add: step_def)
qed

lemma dir_at_iff: "dir_at fs p \<longleftrightarrow> (\<forall>q. prefix q p \<longrightarrow> entry fs q = Some Dir)"
  by (auto simp: dir_at_def list_all_iff)

lemma dir_at_resolve:
  assumes "plain p" "dir_at fs p"
  shows "resolve fs p = Inr p" and "entry fs p = Some Dir" and "lookup fs p = Some Dir"
proof -
  have "\<forall>xs. strict_prefix xs p \<longrightarrow> entry fs ([] @ xs) = Some Dir"
    using assms(2) by (auto simp: dir_at_iff strict_prefix_def)
  from resolve_from_plain_ok [OF assms(1) this] show r: "resolve fs p = Inr p"
    by (simp add: resolve_def)
  show e: "entry fs p = Some Dir" using assms(2) by (simp add: dir_at_iff)
  from r e show "lookup fs p = Some Dir" by (simp add: lookup_def)
qed

lemma lookup_dir_at:
  assumes "plain p" "lookup fs p = Some Dir"
  shows "dir_at fs p"
  using lookup_plain_prefix_dirs [OF assms] by (simp add: dir_at_iff)

lemma dir_at_child:
  assumes "plain p" "dir_at fs p" "c \<noteq> ''..''"
  shows "resolve fs (p @ [c]) = Inr (p @ [c])"
  using dir_at_resolve(1,2) [OF assms(1,2)] assms(3) by (rule resolve_plain_dir_snoc)

lemma dir_at_kept:
  assumes "dir_at fs p" "\<And>q. prefix q p \<Longrightarrow> entry fs q = Some Dir \<Longrightarrow> entry fs1 q = Some Dir"
  shows "dir_at fs1 p"
  using assms by (auto simp: dir_at_iff)

lemma dir_at_grown: "grown fs fs1 \<Longrightarrow> dir_at fs p \<Longrightarrow> dir_at fs1 p"
  by (auto simp: dir_at_iff dest: grown_keeps)

section \<open>The frame of the steps before the move\<close>

lemma confined_refl: "confined t fs fs"
  by (simp add: confined_def)

lemma confined_trans:
  assumes "confined t fs fs1" "confined t fs1 fs2"
  shows "confined t fs fs2"
  unfolding confined_def
proof
  fix q
  from assms(1) have a: "entry fs1 q = entry fs q \<or> prefix t q
      \<or> (entry fs q = None \<and> entry fs1 q = Some Dir)"
    by (simp add: confined_def)
  from assms(2) have b: "entry fs2 q = entry fs1 q \<or> prefix t q
      \<or> (entry fs1 q = None \<and> entry fs2 q = Some Dir)"
    by (simp add: confined_def)
  from a b show "entry fs2 q = entry fs q \<or> prefix t q
      \<or> (entry fs q = None \<and> entry fs2 q = Some Dir)"
    by auto
qed

lemma grown_confined: "grown fs fs1 \<Longrightarrow> confined t fs fs1"
  by (auto simp: grown_def confined_def)

lemma confined_mkdir_parents:
  shows "mkdir_parents fs p = Inr fs1 \<Longrightarrow> confined t fs fs1"
    and "mkdir_parents fs p = Inl (e, fs1) \<Longrightarrow> confined t fs fs1"
  using mkdir_parents_grown [of fs p fs1 e] by (auto intro: grown_confined)

lemma confined_rmtree:
  assumes "rmtree fs p = Inr fs1" "plain p" "prefix t p"
  shows "confined t fs fs1"
  using assms(3) by (auto simp: confined_def entry_rmtree(1) [OF assms(1,2)])

lemma makedirs_grown:
  shows "makedirs fs p = Inr fs1 \<Longrightarrow> grown fs fs1"
    and "makedirs fs p = Inl (e, fs1) \<Longrightarrow> grown fs fs1"
proof -
  define par where "par =
     (if p = [] \<or> exists fs (butlast p) then Inr fs
      else (case mkdir_parents fs (butlast p) of
              Inl (e, fs1) \<Rightarrow> if e = FileExistsError then Inr fs1 else Inl (e, fs1)
            | Inr fs1 \<Rightarrow> Inr fs1))"
  have md: "makedirs fs p =
     (case par of
        Inl x \<Rightarrow> Inl x
      | Inr fs1 \<Rightarrow> (case os_mkdir fs1 p of Inl e \<Rightarrow> Inl (e, fs1) | Inr fs2 \<Rightarrow> Inr fs2))"
    unfolding makedirs_def par_def by (rule refl)
  have pr: "grown fs fsa" if "par = Inr fsa \<or> par = Inl (e', fsa)" for fsa e'
  proof (cases "p = [] \<or> exists fs (butlast p)")
    case True
    with that show ?thesis by (auto simp: par_def grown_refl)
  next
    case False
    show ?thesis
    proof (cases "mkdir_parents fs (butlast p)")
      case (Inl x)
      obtain e2 b where x: "x = (e2, b)" by (cases x)
      from Inl x False that have "b = fsa" by (auto simp: par_def split: if_splits)
      with mkdir_parents_grown [of fs "butlast p" b e2] Inl x show ?thesis by simp
    next
      case (Inr fsb)
      with False that have "fsb = fsa" by (auto simp: par_def)
      with mkdir_parents_grown [of fs "butlast p" fsb] Inr show ?thesis by simp
    qed
  qed
  show "grown fs fs1" if m: "makedirs fs p = Inr fs1"
  proof -
    from m md obtain fsa where a: "par = Inr fsa" "os_mkdir fsa p = Inr fs1"
      by (auto split: sum.splits)
    from pr [of fsa] a(1) have "grown fs fsa" by simp
    with os_mkdir_grown [OF a(2)] show ?thesis by (rule grown_trans [rotated])
  qed
  show "grown fs fs1" if m: "makedirs fs p = Inl (e, fs1)"
  proof -
    from m md have "par = Inl (e, fs1) \<or> par = Inr fs1"
      by (auto split: sum.splits)
    with pr [of fs1 e] show ?thesis by auto
  qed
qed

lemma makedirs_Inr:
  assumes "makedirs fs p = Inr fs1" "plain p"
  shows "entry fs1 p = Some Dir" and "resolve fs1 p = Inr p"
proof -
  from assms(1) obtain fsa where m: "os_mkdir fsa p = Inr fs1"
    by (auto simp: makedirs_def split: sum.splits)
  from os_mkdir_Inr [OF m] obtain r where r: "resolve fsa p = Inr r" "r \<noteq> []"
    "fs1 = (r, Dir) # fsa"
    by blast
  from resolve_plain [OF assms(2) r(1)] have rp: "r = p" .
  from r rp show "entry fs1 p = Some Dir" by (simp add: entry_Cons)
  from grown_resolve [OF os_mkdir_grown [OF m] r(1)] rp show "resolve fs1 p = Inr p" by simp
qed

lemma copytree_Inl_grown:
  assumes "copytree fs src dst = Inl (e, fs1)"
  shows "grown fs fs1"
  using assms makedirs_grown [of fs dst]
  by (auto simp: copytree_def grown_refl split: sum.splits option.splits node.splits)

lemma copytree_Inr:
  assumes "copytree fs src dst = Inr fs1" "plain dst"
  shows "\<exists>fsa rs. grown fs fsa \<and> entry fsa dst = Some Dir
           \<and> fs1 = rebase rs dst (filter (\<lambda>e. fst e \<noteq> rs) fs) @ fsa"
proof -
  from assms(1) obtain rs fsa rd where mk: "makedirs fs dst = Inr fsa"
    and rd: "resolve fsa dst = Inr rd"
    and fs1: "fs1 = rebase rs rd (filter (\<lambda>e. fst e \<noteq> rs) fs) @ fsa"
    by (auto simp: copytree_def split: sum.splits option.splits node.splits)
  from resolve_plain [OF assms(2) rd] have "rd = dst" .
  with fs1 makedirs_grown(1) [OF mk] makedirs_Inr(1) [OF mk assms(2)] show ?thesis by blast
qed

lemma map_of_rebase_at:
  "map_of (rebase rs dst (filter (\<lambda>e. fst e \<noteq> rs) fs)) dst = None"
proof -
  have "dst \<notin> fst ` set (rebase rs dst (filter (\<lambda>e. fst e \<noteq> rs) fs))"
    by (auto simp: rebase_def prefix_def)
  then show ?thesis by (simp add: map_of_eq_None_iff)
qed

lemma entry_copytree_outside:
  assumes "copytree fs src dst = Inr fs1" "plain dst" "\<not> prefix dst q"
  shows "entry fs1 q = entry fs q \<or> (entry fs q = None \<and> entry fs1 q = Some Dir)"
proof -
  from copytree_Inr [OF assms(1,2)] obtain fsa rs where g: "grown fs fsa"
    and fs1: "fs1 = rebase rs dst (filter (\<lambda>e. fst e \<noteq> rs) fs) @ fsa"
    by blast
  have "entry fs1 q = entry fsa q"
    by (simp add: fs1 entry_append map_of_rebase_outside [OF assms(3)])
  with g show ?thesis by (auto simp: grown_def)
qed

lemma copytree_dst_dir:
  assumes "copytree fs src dst = Inr fs1" "plain dst"
  shows "entry fs1 dst = Some Dir"
proof -
  from copytree_Inr [OF assms(1,2)] obtain fsa rs where d: "entry fsa dst = Some Dir"
    and fs1: "fs1 = rebase rs dst (filter (\<lambda>e. fst e \<noteq> rs) fs) @ fsa"
    by blast
  then show ?thesis by (auto simp: entry_append map_of_rebase_at)
qed

lemma confined_copytree:
  assumes "plain dst" "prefix t dst"
  shows "copytree fs src dst = Inr fs1 \<Longrightarrow> confined t fs fs1"
    and "copytree fs src dst = Inl (e, fs1) \<Longrightarrow> confined t fs fs1"
proof -
  show "confined t fs fs1" if c: "copytree fs src dst = Inr fs1"
    unfolding confined_def
  proof
    fix q
    show "entry fs1 q = entry fs q \<or> prefix t q \<or> (entry fs q = None \<and> entry fs1 q = Some Dir)"
    proof (cases "prefix dst q")
      case True
      with assms(2) have "prefix t q" by auto
      then show ?thesis by simp
    next
      case False
      from entry_copytree_outside [OF c assms(1) False] show ?thesis by auto
    qed
  qed
  show "copytree fs src dst = Inl (e, fs1) \<Longrightarrow> confined t fs fs1"
    by (rule grown_confined [OF copytree_Inl_grown])
qed

lemma confined_write_file:
  assumes "write_file fs p c = Inr fs1" "plain p" "prefix t p"
  shows "confined t fs fs1"
  using assms(3) by (auto simp: confined_def entry_write_file [OF assms(1,2)])

lemma confined_unlink:
  assumes "unlink_missing_ok fs p = Inr fs1" "plain p" "prefix t p"
  shows "confined t fs fs1"
  unfolding confined_def
proof
  fix q
  show "entry fs1 q = entry fs q \<or> prefix t q \<or> (entry fs q = None \<and> entry fs1 q = Some Dir)"
    using entry_unlink [OF assms(1,2), of q] assms(3) by (cases "q = p") auto
qed

lemma entry_beet_tree:
  assumes "\<not> strict_prefix r q"
  shows "entry (map (\<lambda>e. (r @ fst e, snd e))
                  (filter (\<lambda>e. fst e \<noteq> [] \<and> ''..'' \<notin> set (fst e)) tree)
                @ filter (\<lambda>e. \<not> strict_prefix r (fst e)) fs) q = entry fs q"
proof -
  let ?new = "map (\<lambda>e. (r @ fst e, snd e)) (filter (\<lambda>e. fst e \<noteq> [] \<and> ''..'' \<notin> set (fst e)) tree)"
  have "q \<notin> fst ` set ?new"
    using assms by (auto simp: strict_prefix_def)
  then have "map_of ?new q = None" by (simp add: map_of_eq_None_iff)
  moreover have "map_of (filter (\<lambda>e. \<not> strict_prefix r (fst e)) fs) q = map_of fs q"
    using map_of_filter_key [of "\<lambda>k. \<not> strict_prefix r k" fs q] assms by simp
  ultimately show ?thesis
    by (cases "q = []") (simp_all add: entry_def map_add_def split: option.splits)
qed

text \<open>The tree after the run of the tagging tool, before its library file is written.\<close>

lemma beet_effect_cases:
  assumes "plain p" "plain (beets_library cfg p)"
  shows "\<exists>fs1. (\<forall>q. \<not> strict_prefix p q \<longrightarrow> entry fs1 q = entry fs q)
           \<and> (beet_effect cfg run p fs = fs1
               \<or> (entry fs1 (beets_library cfg p) \<noteq> Some Dir
                   \<and> beet_effect cfg run p fs
                       = (beets_library cfg p, File ProbeNone)
                           # remove_entry (beets_library cfg p) fs1))"
proof -
  define fs1 where "fs1 =
     (case resolve fs p of
        Inl e \<Rightarrow> fs
      | Inr r \<Rightarrow>
          map (\<lambda>e. (r @ fst e, snd e))
            (filter (\<lambda>e. fst e \<noteq> [] \<and> ''..'' \<notin> set (fst e)) (beet_tree run))
          @ filter (\<lambda>e. \<not> strict_prefix r (fst e)) fs)"
  have same: "entry fs1 q = entry fs q" if "\<not> strict_prefix p q" for q
  proof (cases "resolve fs p")
    case (Inl e)
    then show ?thesis by (simp add: fs1_def)
  next
    case (Inr r)
    from resolve_plain [OF assms(1) Inr] have "r = p" .
    with Inr that show ?thesis by (simp add: fs1_def entry_beet_tree)
  qed
  have eff: "beet_effect cfg run p fs =
      (if beet_library_written run
       then (case write_file fs1 (beets_library cfg p) ProbeNone of Inl e \<Rightarrow> fs1 | Inr fs2 \<Rightarrow> fs2)
       else fs1)"
    unfolding beet_effect_def fs1_def Let_def by (rule refl)
  show ?thesis
  proof (cases "beet_library_written run")
    case False
    with eff same show ?thesis by auto
  next
    case True
    show ?thesis
    proof (cases "write_file fs1 (beets_library cfg p) ProbeNone")
      case (Inl e)
      with eff True same show ?thesis by auto
    next
      case (Inr fs2)
      from write_file_Inr(2,4) [OF Inr assms(2)] eff True Inr same show ?thesis by auto
    qed
  qed
qed

lemma entry_beet_effect:
  assumes "plain p" "plain (beets_library cfg p)" "\<not> strict_prefix p q"
  shows "entry (beet_effect cfg run p fs) q = entry fs q
         \<or> (q = beets_library cfg p \<and> entry fs q \<noteq> Some Dir
             \<and> entry (beet_effect cfg run p fs) q = Some (File ProbeNone))"
proof -
  from beet_effect_cases [OF assms(1,2), of fs run] obtain fs1 where
    same: "\<forall>q. \<not> strict_prefix p q \<longrightarrow> entry fs1 q = entry fs q"
    and eff: "beet_effect cfg run p fs = fs1
               \<or> (entry fs1 (beets_library cfg p) \<noteq> Some Dir
                   \<and> beet_effect cfg run p fs
                       = (beets_library cfg p, File ProbeNone)
                           # remove_entry (beets_library cfg p) fs1)"
    by blast
  from eff show ?thesis
  proof
    assume "beet_effect cfg run p fs = fs1"
    with same assms(3) show ?thesis by simp
  next
    assume w: "entry fs1 (beets_library cfg p) \<noteq> Some Dir
        \<and> beet_effect cfg run p fs
            = (beets_library cfg p, File ProbeNone) # remove_entry (beets_library cfg p) fs1"
    show ?thesis
    proof (cases "q = beets_library cfg p")
      case True
      with w same assms(3) show ?thesis by (auto simp: entry_Cons)
    next
      case False
      with w same assms(3) show ?thesis by (auto simp: entry_Cons entry_remove_entry)
    qed
  qed
qed

lemma confined_beet_effect:
  assumes "plain p" "plain (beets_library cfg p)" "prefix t p" "prefix t (beets_library cfg p)"
  shows "confined t fs (beet_effect cfg run p fs)"
  unfolding confined_def
proof
  fix q
  show "entry (beet_effect cfg run p fs) q = entry fs q \<or> prefix t q
      \<or> (entry fs q = None \<and> entry (beet_effect cfg run p fs) q = Some Dir)"
  proof (cases "strict_prefix p q")
    case True
    with assms(3) have "prefix t q" by (auto simp: strict_prefix_def)
    then show ?thesis by simp
  next
    case False
    from entry_beet_effect [OF assms(1,2) False, where run = run and fs = fs] assms(4) show ?thesis by auto
  qed
qed

lemma confined_ffmpeg_effect:
  assumes "plain p" "prefix t p"
  shows "confined t fs (ffmpeg_effect run p fs)"
  using assms
  by (auto simp: ffmpeg_effect_def confined_refl confined_write_file
      split: option.splits sum.splits)

lemma confined_stage_copy:
  assumes "plain (temp_book_path cfg p)" "prefix t (temp_book_path cfg p)"
  shows "stage_copy cfg fs p = Inr fs1 \<Longrightarrow> confined t fs fs1"
    and "stage_copy cfg fs p = Inl (e, fs1) \<Longrightarrow> confined t fs fs1"
proof -
  let ?sp = "temp_book_path cfg p"
  have step: "confined t fs fs1"
    if "stage_copy cfg fs p = r" "r = Inr fs1 \<or> r = Inl (e, fs1)" for r
  proof (cases "if exists fs ?sp then rmtree fs ?sp else Inr fs")
    case (Inl x)
    with that show ?thesis by (auto simp: stage_copy_def Let_def confined_refl)
  next
    case (Inr fsa)
    have a: "confined t fs fsa"
      using Inr confined_rmtree [OF _ assms] by (auto simp: confined_refl split: if_splits)
    from that Inr have "copytree fsa p ?sp = Inr fs1 \<or> copytree fsa p ?sp = Inl (e, fs1)"
      by (auto simp: stage_copy_def Let_def)
    then have "confined t fsa fs1" using confined_copytree [OF assms] by blast
    with a show ?thesis by (rule confined_trans)
  qed
  show "stage_copy cfg fs p = Inr fs1 \<Longrightarrow> confined t fs fs1" using step by blast
  show "stage_copy cfg fs p = Inl (e, fs1) \<Longrightarrow> confined t fs fs1" using step by blast
qed

lemma confined_tag_with_beets:
  assumes pl: "plain p" "plain (beets_library cfg p)" "plain (beets_config_file cfg p)"
    and t: "prefix t p" "prefix t (beets_library cfg p)" "prefix t (beets_config_file cfg p)"
  shows "tag_with_beets cfg tool fs p m = Inr (m', fs') \<Longrightarrow> confined t fs fs'"
    and "tag_with_beets cfg tool fs p m = Inl (e, fs') \<Longrightarrow> confined t fs fs'"
proof -
  let ?cf = "beets_config_file cfg p" and ?db = "beets_library cfg p"
  have step: "confined t fs fs'"
    if "tag_with_beets cfg tool fs p m = r" "r = Inr (m', fs') \<or> r = Inl (e, fs')" for r
  proof (cases "write_file fs ?cf ProbeNone")
    case (Inl x)
    with that show ?thesis by (auto simp: tag_with_beets_def confined_refl)
  next
    case (Inr fs1)
    let ?fs2 = "beet_effect cfg (tool fs1 p) p fs1"
    have c2: "confined t fs ?fs2"
      by (rule confined_trans [OF confined_write_file [OF Inr pl(3) t(3)]
            confined_beet_effect [OF pl(1,2) t(1,2)]])
    show ?thesis
    proof (cases "unlink_missing_ok ?fs2 ?cf")
      case (Inl x)
      with that Inr c2 show ?thesis by (auto simp: tag_with_beets_def Let_def)
    next
      case u1: (Inr fs3)
      have c3: "confined t fs fs3"
        by (rule confined_trans [OF c2 confined_unlink [OF u1 pl(3) t(3)]])
      show ?thesis
      proof (cases "unlink_missing_ok fs3 ?db")
        case (Inl x)
        with that Inr u1 c3 show ?thesis by (auto simp: tag_with_beets_def Let_def)
      next
        case u2: (Inr fs4)
        have "confined t fs fs4"
          by (rule confined_trans [OF c3 confined_unlink [OF u2 pl(2) t(2)]])
        with that Inr u1 u2 show ?thesis by (auto simp: tag_with_beets_def Let_def)
      qed
    qed
  qed
  show "tag_with_beets cfg tool fs p m = Inr (m', fs') \<Longrightarrow> confined t fs fs'"
    using step by blast
  show "tag_with_beets cfg tool fs p m = Inl (e, fs') \<Longrightarrow> confined t fs fs'"
    using step by blast
qed

text \<open>The converter, once its file list is written.\<close>

lemma convert_cases:
  assumes r: "convert_to_m4b_ffmpeg712 cfg tool fs p m fn = Inr (out, fs')"
    and a: "audio_files fs p \<noteq> []"
  shows "\<exists>fs1. write_file fs (file_list_path cfg p) ProbeNone = Inr fs1
           \<and> (fs' = ffmpeg_effect (tool fs1 (ffmpeg_command cfg p m fn))
                      (pjoin (temp_dir cfg) fn) fs1
               \<or> unlink_missing_ok
                    (ffmpeg_effect (tool fs1 (ffmpeg_command cfg p m fn))
                       (pjoin (temp_dir cfg) fn) fs1)
                    (file_list_path cfg p) = Inr fs')"
proof (cases "write_file fs (file_list_path cfg p) ProbeNone")
  case (Inl x)
  with r a show ?thesis by (simp add: convert_to_m4b_ffmpeg712_def Let_def)
next
  case (Inr fs1)
  with r a show ?thesis
    by (auto simp: convert_to_m4b_ffmpeg712_def Let_def split: if_splits sum.splits)
qed

lemma confined_convert:
  assumes pl: "plain (file_list_path cfg p)" "plain (pjoin (temp_dir cfg) fn)"
    and t: "prefix t (file_list_path cfg p)" "prefix t (pjoin (temp_dir cfg) fn)"
    and r: "convert_to_m4b_ffmpeg712 cfg tool fs p m fn = Inr (out, fs')"
  shows "confined t fs fs'"
proof (cases "audio_files fs p = []")
  case True
  with r show ?thesis by (simp add: convert_to_m4b_ffmpeg712_def confined_refl)
next
  case False
  from convert_cases [OF r False] obtain fs1 where
    w: "write_file fs (file_list_path cfg p) ProbeNone = Inr fs1"
    and e: "fs' = ffmpeg_effect (tool fs1 (ffmpeg_command cfg p m fn))
                      (pjoin (temp_dir cfg) fn) fs1
               \<or> unlink_missing_ok
                    (ffmpeg_effect (tool fs1 (ffmpeg_command cfg p m fn))
                       (pjoin (temp_dir cfg) fn) fs1)
                    (file_list_path cfg p) = Inr fs'"
    by blast
  let ?fs2 = "ffmpeg_effect (tool fs1 (ffmpeg_command cfg p m fn)) (pjoin (temp_dir cfg) fn) fs1"
  have c2: "confined t fs ?fs2"
    by (rule confined_trans [OF confined_write_file [OF w pl(1) t(1)]
          confined_ffmpeg_effect [OF pl(2) t(2)]])
  from e show ?thesis
    using c2 confined_trans [OF c2 confined_unlink [OF _ pl(1) t(1)]] by blast
qed

lemma convert_failing:
  assumes "\<forall>fs0 a. ffmpeg_result (tool fs0 a) \<noteq> Exited 0"
    and "convert_to_m4b_ffmpeg712 cfg tool fs p m fn = Inr (out, fs')"
  shows "out = None"
  using assms
  by (auto simp: convert_to_m4b_ffmpeg712_def Let_def split: if_splits sum.splits)


section \<open>Directories that the steps keep\<close>

lemma write_file_keeps_dir:
  assumes "write_file fs p c = Inr fs1" "entry fs d = Some Dir"
  shows "entry fs1 d = Some Dir"
proof -
  from assms(1) obtain r where r: "entry fs r \<noteq> Some Dir" "fs1 = (r, File c) # remove_entry r fs"
    by (auto simp: write_file_def split: sum.splits if_splits)
  with assms(2) have "d \<noteq> r" by auto
  with assms(2) r(2) show ?thesis by (simp add: entry_Cons entry_remove_entry)
qed

lemma unlink_keeps_dir:
  assumes "unlink_missing_ok fs p = Inr fs1" "entry fs d = Some Dir"
  shows "entry fs1 d = Some Dir"
proof -
  from assms(1) have "fs1 = fs \<or> (\<exists>r. entry fs r \<noteq> Some Dir \<and> fs1 = remove_entry r fs)"
    by (auto simp: unlink_missing_ok_def split: sum.splits if_splits)
  with assms(2) show ?thesis by (auto simp: entry_remove_entry)
qed

lemma ffmpeg_effect_keeps_dir:
  assumes "entry fs d = Some Dir"
  shows "entry (ffmpeg_effect run p fs) d = Some Dir"
  using assms
  by (auto simp: ffmpeg_effect_def write_file_keeps_dir split: option.splits sum.splits)



lemma beet_effect_keeps_dir:
  assumes "plain p" "plain (beets_library cfg p)" "entry fs d = Some Dir" "\<not> strict_prefix p d"
  shows "entry (beet_effect cfg run p fs) d = Some Dir"
  using entry_beet_effect [OF assms(1,2,4), where run = run and fs = fs] assms(3) by auto


lemma stage_copy_staged_dir:
  assumes "stage_copy cfg fs p = Inr fs1" "plain (temp_book_path cfg p)"
  shows "entry fs1 (temp_book_path cfg p) = Some Dir"
  using assms
  by (auto simp: stage_copy_def Let_def split: if_splits sum.splits intro: copytree_dst_dir)

lemma tag_with_beets_keeps_dir:
  assumes pl: "plain p" "plain (beets_library cfg p)"
    and d: "entry fs d = Some Dir" "\<not> strict_prefix p d"
  shows "tag_with_beets cfg tool fs p m = Inr (m', fs') \<Longrightarrow> entry fs' d = Some Dir"
    and "tag_with_beets cfg tool fs p m = Inl (e, fs') \<Longrightarrow> entry fs' d = Some Dir"
proof -
  let ?cf = "beets_config_file cfg p" and ?db = "beets_library cfg p"
  have step: "entry fs' d = Some Dir"
    if "tag_with_beets cfg tool fs p m = r" "r = Inr (m', fs') \<or> r = Inl (e, fs')" for r
  proof (cases "write_file fs ?cf ProbeNone")
    case (Inl x)
    with that d show ?thesis by (auto simp: tag_with_beets_def)
  next
    case (Inr fs1)
    let ?fs2 = "beet_effect cfg (tool fs1 p) p fs1"
    have c2: "entry ?fs2 d = Some Dir"
      by (rule beet_effect_keeps_dir [OF pl write_file_keeps_dir [OF Inr d(1)] d(2)])
    show ?thesis
    proof (cases "unlink_missing_ok ?fs2 ?cf")
      case (Inl x)
      with that Inr c2 show ?thesis by (auto simp: tag_with_beets_def Let_def)
    next
      case u1: (Inr fs3)
      have c3: "entry fs3 d = Some Dir" by (rule unlink_keeps_dir [OF u1 c2])
      show ?thesis
      proof (cases "unlink_missing_ok fs3 ?db")
        case (Inl x)
        with that Inr u1 c3 show ?thesis by (auto simp: tag_with_beets_def Let_def)
      next
        case u2: (Inr fs4)
        have "entry fs4 d = Some Dir" by (rule unlink_keeps_dir [OF u2 c3])
        with that Inr u1 u2 show ?thesis by (auto simp: tag_with_beets_def Let_def)
      qed
    qed
  qed
  show "tag_with_beets cfg tool fs p m = Inr (m', fs') \<Longrightarrow> entry fs' d = Some Dir"
    using step by blast
  show "tag_with_beets cfg tool fs p m = Inl (e, fs') \<Longrightarrow> entry fs' d = Some Dir"
    using step by blast
qed

lemma convert_keeps_dir:
  assumes d: "entry fs d = Some Dir"
    and r: "convert_to_m4b_ffmpeg712 cfg tool fs p m fn = Inr (out, fs')"
  shows "entry fs' d = Some Dir"
proof (cases "audio_files fs p = []")
  case True
  with r d show ?thesis by (simp add: convert_to_m4b_ffmpeg712_def)
next
  case False
  from convert_cases [OF r False] obtain fs1 where
    w: "write_file fs (file_list_path cfg p) ProbeNone = Inr fs1"
    and e: "fs' = ffmpeg_effect (tool fs1 (ffmpeg_command cfg p m fn))
                      (pjoin (temp_dir cfg) fn) fs1
               \<or> unlink_missing_ok
                    (ffmpeg_effect (tool fs1 (ffmpeg_command cfg p m fn))
                       (pjoin (temp_dir cfg) fn) fs1)
                    (file_list_path cfg p) = Inr fs'"
    by blast
  let ?fs2 = "ffmpeg_effect (tool fs1 (ffmpeg_command cfg p m fn)) (pjoin (temp_dir cfg) fn) fs1"
  have c2: "entry ?fs2 d = Some Dir"
    by (rule ffmpeg_effect_keeps_dir [OF write_file_keeps_dir [OF w d]])
  from e show ?thesis using c2 unlink_keeps_dir [OF _ c2] by blast
qed

lemma copytree_dir_at:
  assumes "copytree fs src dst = Inr fs1" "plain dst"
  shows "dir_at fs1 dst"
proof -
  from assms(1) obtain rs fsa rd where mk: "makedirs fs dst = Inr fsa"
    and fs1: "fs1 = rebase rs rd (filter (\<lambda>e. fst e \<noteq> rs) fs) @ fsa"
    and rd: "resolve fsa dst = Inr rd"
    by (auto simp: copytree_def split: sum.splits option.splits node.splits)
  from resolve_plain [OF assms(2) rd] have rdd: "rd = dst" .
  from makedirs_Inr [OF mk assms(2)] have "lookup fsa dst = Some Dir" by (simp add: lookup_def)
  from lookup_dir_at [OF assms(2) this] have a: "dir_at fsa dst" .
  show ?thesis
    unfolding dir_at_iff
  proof (intro allI impI)
    fix q
    assume q: "prefix q dst"
    show "entry fs1 q = Some Dir"
    proof (cases "q = dst")
      case True
      then show ?thesis using copytree_dst_dir [OF assms] by simp
    next
      case False
      with q have "\<not> prefix dst q" by (auto simp: prefix_order.antisym)
      then have "entry fs1 q = entry fsa q"
        by (simp add: fs1 rdd entry_append map_of_rebase_outside)
      with a q show ?thesis by (simp add: dir_at_iff)
    qed
  qed
qed

lemma stage_copy_dir_at:
  assumes "stage_copy cfg fs p = Inr fs1" "plain (temp_book_path cfg p)"
  shows "dir_at fs1 (temp_book_path cfg p)"
  using assms
  by (auto simp: stage_copy_def Let_def split: if_splits sum.splits intro: copytree_dir_at)


section \<open>Jobs whose conversion fails\<close>

lemma convert_and_move_frame:
  assumes pl: "plain (file_list_path cfg sp)" "plain (pjoin (temp_dir cfg) fn)"
    and pt: "prefix t (file_list_path cfg sp)" "prefix t (pjoin (temp_dir cfg) fn)"
    and run: "convert_and_move cfg tls fs bp sp m fn final = (r, fs')"
    and why: "(\<forall>fs0 a. ffmpeg_result (ffmpeg tls fs0 a) \<noteq> Exited 0) \<or> r = ConversionFailed"
  shows "r \<noteq> Converted" and "confined t fs fs'"
    and "entry fs d = Some Dir \<Longrightarrow> entry fs' d = Some Dir"
proof -
  have all: "r \<noteq> Converted \<and> confined t fs fs'
      \<and> (entry fs d = Some Dir \<longrightarrow> entry fs' d = Some Dir)"
  proof (cases "convert_to_m4b_ffmpeg712 cfg (ffmpeg tls) fs sp m fn")
    case (Inl e)
    with run show ?thesis by (auto simp: convert_and_move_def confined_refl)
  next
    case (Inr res)
    obtain out fs1 where res: "res = (out, fs1)" by (cases res)
    note conv = Inr [unfolded res]
    have c: "confined t fs fs1" by (rule confined_convert [OF pl pt conv])
    have k: "entry fs d = Some Dir \<longrightarrow> entry fs1 d = Some Dir"
      using convert_keeps_dir [OF _ conv] by blast
    show ?thesis
    proof (cases out)
      case None
      with run conv c k show ?thesis by (auto simp: convert_and_move_def)
    next
      case (Some f)
      from why show ?thesis
      proof
        assume "\<forall>fs0 a. ffmpeg_result (ffmpeg tls fs0 a) \<noteq> Exited 0"
        from convert_failing [OF this conv] Some show ?thesis by simp
      next
        assume "r = ConversionFailed"
        with run conv Some have "fs' = fs1"
          by (auto simp: convert_and_move_def split: if_splits sum.splits)
        with c k \<open>r = ConversionFailed\<close> show ?thesis by simp
      qed
    qed
  qed
  from all show "r \<noteq> Converted" by simp
  from all show "confined t fs fs'" by simp
  from all show "entry fs d = Some Dir \<Longrightarrow> entry fs' d = Some Dir" by simp
qed

lemma tag_and_convert_frame:
  assumes pl: "plain sp" "plain (beets_library cfg sp)" "plain (beets_config_file cfg sp)"
      "plain (file_list_path cfg sp)" "plain (pjoin (temp_dir cfg) fn)"
    and pt: "prefix t sp" "prefix t (beets_library cfg sp)" "prefix t (beets_config_file cfg sp)"
      "prefix t (file_list_path cfg sp)" "prefix t (pjoin (temp_dir cfg) fn)"
    and run: "tag_and_convert cfg tls fs bp sp m fn final = (r, fs')"
    and why: "(\<forall>fs0 a. ffmpeg_result (ffmpeg tls fs0 a) \<noteq> Exited 0) \<or> r = ConversionFailed"
  shows "r \<noteq> Converted" and "confined t fs fs'"
    and "entry fs d = Some Dir \<Longrightarrow> \<not> strict_prefix sp d \<Longrightarrow> entry fs' d = Some Dir"
proof -
  have all: "r \<noteq> Converted \<and> confined t fs fs'
      \<and> (entry fs d = Some Dir \<and> \<not> strict_prefix sp d \<longrightarrow> entry fs' d = Some Dir)"
  proof (cases "enable_audible cfg \<and> tag_before_conversion cfg")
    case False
    with run have "convert_and_move cfg tls fs bp sp m fn final = (r, fs')"
      by (auto simp: tag_and_convert_def)
    from convert_and_move_frame(1,2) [OF pl(4,5) pt(4,5) this why]
      convert_and_move_frame(3) [OF pl(4,5) pt(4,5) this why, where d = d]
    show ?thesis by blast
  next
    case True
    show ?thesis
    proof (cases "tag_with_beets cfg (beet tls) fs sp m")
      case (Inl x)
      obtain e fs1 where x: "x = (e, fs1)" by (cases x)
      from run True Inl x have r: "r = ProcessingError e" "fs' = fs1"
        by (auto simp: tag_and_convert_def)
      show ?thesis
        using confined_tag_with_beets(2) [OF pl(1,2,3) pt(1,2,3) Inl [unfolded x]]
          tag_with_beets_keeps_dir(2) [OF pl(1,2) _ _ Inl [unfolded x], of d] r
        by auto
    next
      case (Inr y)
      obtain m' fs1 where y: "y = (m', fs1)" by (cases y)
      from run True Inr y have cm: "convert_and_move cfg tls fs1 bp sp m' fn final = (r, fs')"
        by (auto simp: tag_and_convert_def)
      note c1 = confined_tag_with_beets(1) [OF pl(1,2,3) pt(1,2,3) Inr [unfolded y]]
      note k1 = tag_with_beets_keeps_dir(1) [OF pl(1,2) _ _ Inr [unfolded y], of d]
      note f2 = convert_and_move_frame(1,2) [OF pl(4,5) pt(4,5) cm why]
      note f3 = convert_and_move_frame(3) [OF pl(4,5) pt(4,5) cm why, where d = d]
      show ?thesis
        using f2(1) confined_trans [OF c1 f2(2)] k1 f3 by blast
    qed
  qed
  from all show "r \<noteq> Converted" by simp
  from all show "confined t fs fs'" by simp
  from all show "entry fs d = Some Dir \<Longrightarrow> \<not> strict_prefix sp d \<Longrightarrow> entry fs' d = Some Dir"
    by simp
qed

lemma output_file_plain:
  assumes "sanitize_names cfg" "plain (temp_dir cfg)"
  shows "plain (pjoin (temp_dir cfg) (m4b_filename cfg m))"
  using assms(2) m4b_filename_not_dotdot [of cfg m] by (simp add: output_file_eq [OF assms(1)])

lemma process_audiobook_frame:
  assumes san: "sanitize_names cfg" and name: "CHR ''/'' \<notin> set (path_name bp)"
    and pt: "plain (temp_dir cfg)"
    and run: "process_audiobook cfg tls fs bp = (r, fs')"
    and why: "(\<forall>fs0 a. ffmpeg_result (ffmpeg tls fs0 a) \<noteq> Exited 0) \<or> r = ConversionFailed"
    and ns: "r \<noteq> SkippedDuplicate"
  shows "r \<noteq> Converted \<and> confined (temp_dir cfg) fs fs'
         \<and> (r = ConversionFailed \<longrightarrow> dir_at fs' (temp_book_path cfg bp))"
proof (cases "extract_metadata_from_files cfg fs bp")
  case None
  with run show ?thesis by (auto simp: process_audiobook_def confined_refl)
next
  case (Some m)
  let ?d = "output_book_dir cfg m" and ?f = "m4b_filename cfg m"
  let ?sp = "temp_book_path cfg bp"
  note spl = staged_plain [OF name pt]
  note spr = staged_prefixes [OF name, of cfg]
  show ?thesis
  proof (cases "mkdir_parents fs ?d")
    case (Inl x)
    obtain e fs1 where x: "x = (e, fs1)" by (cases x)
    from run Some Inl x have "r = ProcessingError e" "fs' = fs1"
      by (auto simp: process_audiobook_def create_output_structure_eq)
    with confined_mkdir_parents(2) [OF Inl [unfolded x]] show ?thesis by simp
  next
    case (Inr fs1)
    have c1: "confined (temp_dir cfg) fs fs1" by (rule confined_mkdir_parents(1) [OF Inr])
    have cr: "create_output_structure cfg fs m (path_name bp) = Inr ((?d, ?f), fs1)"
      using Inr by (simp add: create_output_structure_eq)
    show ?thesis
    proof (cases "exists fs1 (pjoin ?d ?f)")
      case True
      with run Some cr ns have "r \<noteq> Converted \<and> r \<noteq> ConversionFailed \<and> fs' = fs1"
        by (auto simp: process_audiobook_def split: sum.splits)
      with c1 show ?thesis by simp
    next
      case False
      show ?thesis
      proof (cases "stage_copy cfg fs1 bp")
        case (Inl x)
        obtain e fs2 where x: "x = (e, fs2)" by (cases x)
        from run Some cr False Inl x have r: "r = ProcessingError e" "fs' = fs2"
          by (auto simp: process_audiobook_def)
        from confined_stage_copy(2) [OF spl(1) spr(1) Inl [unfolded x]] c1 r
        show ?thesis by (auto intro: confined_trans)
      next
        case st: (Inr fs2)
        from run Some cr False st
        have tc: "tag_and_convert cfg tls fs2 bp ?sp m ?f (pjoin ?d ?f) = (r, fs')"
          by (auto simp: process_audiobook_def)
        have out: "prefix (temp_dir cfg) (pjoin (temp_dir cfg) ?f)"
          by (simp add: final_path_eq [OF san])
        note opl = output_file_plain [OF san pt, of m]
        note fr = tag_and_convert_frame(1,2) [OF spl opl spr out tc why]
        have c2: "confined (temp_dir cfg) fs1 fs2"
          by (rule confined_stage_copy(1) [OF spl(1) spr(1) st])
        have "dir_at fs' ?sp"
        proof (rule dir_at_kept [OF stage_copy_dir_at [OF st spl(1)]])
          fix q
          assume "prefix q ?sp" "entry fs2 q = Some Dir"
          then show "entry fs' q = Some Dir"
            using tag_and_convert_frame(3) [OF spl opl spr out tc why, where d = q]
            by (auto simp: strict_prefix_def prefix_order.antisym)
        qed
        then show ?thesis
          using fr(1) confined_trans [OF c1 confined_trans [OF c2 fr(2)]] by simp
      qed
    qed
  qed
qed

section \<open>The output directories once created\<close>




section \<open>The planner on a directory in resolved form\<close>

lemma os_mkdir_plain:
  assumes "os_mkdir fs p = Inr fs1" "plain p"
  shows "fs1 = (p, Dir) # fs"
proof -
  from os_mkdir_Inr [OF assms(1)] obtain r where r: "resolve fs p = Inr r"
    "fs1 = (r, Dir) # fs"
    by blast
  from resolve_plain [OF assms(2) r(1)] r(2) show ?thesis by simp
qed

lemma mkdir_parents_outside:
  "plain p \<Longrightarrow> mkdir_parents fs p = Inr fs1 \<Longrightarrow> \<not> prefix q p \<Longrightarrow> entry fs1 q = entry fs q"
proof (induction fs p arbitrary: fs1 rule: mkdir_parents.induct)
  case (1 fs p)
  have q: "q \<noteq> p" using "1.prems"(3) by auto
  show ?case
  proof (cases "os_mkdir fs p")
    case (Inr fsa)
    with "1.prems"(2) have "fs1 = fsa" by (subst (asm) mkdir_parents_unfold) simp
    with os_mkdir_plain [OF Inr "1.prems"(1)] q show ?thesis by (simp add: entry_Cons)
  next
    case (Inl e)
    show ?thesis
    proof (cases "e = FileNotFoundError \<and> p \<noteq> []")
      case False
      with Inl "1.prems"(2) have "fs1 = fs"
        by (subst (asm) mkdir_parents_unfold) (auto split: if_splits)
      then show ?thesis by simp
    next
      case True
      from Inl True "1.prems"(2) obtain fsa where
        par: "mkdir_parents fs (butlast p) = Inr fsa"
        and rest: "os_mkdir fsa p = Inr fs1 \<or> fs1 = fsa"
        by (subst (asm) mkdir_parents_unfold) (auto split: sum.splits if_splits)
      have "\<not> prefix q (butlast p)"
        using "1.prems"(3) by (meson prefix_order.trans prefixeq_butlast)
      from "1.IH" [OF Inl True plain_butlast [OF "1.prems"(1)] par this]
      have a: "entry fsa q = entry fs q" .
      from rest show ?thesis
      proof
        assume "os_mkdir fsa p = Inr fs1"
        from os_mkdir_plain [OF this "1.prems"(1)] q a show ?thesis by (simp add: entry_Cons)
      next
        assume "fs1 = fsa"
        with a show ?thesis by simp
      qed
    qed
  qed
qed

lemma wf_fs_parent:
  assumes "wf_fs fs" "entry fs p \<noteq> None"
  shows "entry fs (butlast p) = Some Dir"
proof (cases "p = []")
  case True
  then show ?thesis by simp
next
  case False
  with assms(2) have "map_of fs p \<noteq> None" by (simp add: entry_def)
  then obtain n where "(p, n) \<in> set fs" by (auto dest: map_of_SomeD)
  with assms(1) show ?thesis by (auto simp: wf_fs_def list_all_iff)
qed

lemma wf_fs_dir_at:
  "wf_fs fs \<Longrightarrow> entry fs p = Some Dir \<Longrightarrow> dir_at fs p"
proof (induction p rule: rev_induct)
  case Nil
  then show ?case by (simp add: dir_at_iff)
next
  case (snoc c p)
  from wf_fs_parent [OF snoc.prems(1), of "p @ [c]"] snoc.prems(2)
  have "entry fs p = Some Dir" by simp
  from snoc.IH [OF snoc.prems(1) this] snoc.prems(2) show ?case
    by (auto simp: dir_at_iff)
qed

section \<open>Example jobs, step by step\<close>

text \<open>The new book's job with the failing tools.\<close>

lemma failing_job_steps:
  "extract_metadata_from_files default_config fs_new [''input'', ''Jane Doe'', ''My Book'']
     = Some \<lparr>title = ''My Book'', artist = ''Jane Doe'', album = ''My Book'', year = None\<rparr>"
  "create_output_structure default_config fs_new
       \<lparr>title = ''My Book'', artist = ''Jane Doe'', album = ''My Book'', year = None\<rparr>
       (path_name [''input'', ''Jane Doe'', ''My Book''])
     = Inr (([''output'', ''Jane Doe'', ''My Book''], ''My Book.m4b''), fs_planned)"
  "\<not> exists fs_planned (pjoin [''output'', ''Jane Doe'', ''My Book''] ''My Book.m4b'')"
  "stage_copy default_config fs_planned [''input'', ''Jane Doe'', ''My Book''] = Inr fs_staged"
  "tag_with_beets default_config (beet failing_tools) fs_staged
       (temp_book_path default_config [''input'', ''Jane Doe'', ''My Book''])
       \<lparr>title = ''My Book'', artist = ''Jane Doe'', album = ''My Book'', year = None\<rparr>
     = Inr (\<lparr>title = ''My Book'', artist = ''Jane Doe'', album = ''My Book'', year = None\<rparr>,
            fs_staged)"
  "convert_to_m4b_ffmpeg712 default_config (ffmpeg failing_tools) fs_staged
       (temp_book_path default_config [''input'', ''Jane Doe'', ''My Book''])
       \<lparr>title = ''My Book'', artist = ''Jane Doe'', album = ''My Book'', year = None\<rparr>
       ''My Book.m4b''
     = Inr (None, fs_failed)"
  by code_simp+

lemma failing_job_run:
  "process_audiobook default_config failing_tools fs_new [''input'', ''Jane Doe'', ''My Book'']
     = (ConversionFailed, fs_failed)"
proof -
  have "enable_audible default_config \<and> tag_before_conversion default_config"
    by (simp add: default_config_def)
  then show ?thesis
    using failing_job_steps
    by (simp add: process_audiobook_def tag_and_convert_def convert_and_move_def)
qed

text \<open>The job of the book whose album tag is an absolute path, with the sanitizer off.\<close>

lemma raw_job_steps:
  "extract_metadata_from_files raw_config (fs_tagged ''A'' ''/output/x'') [''input'', ''Book'']
     = Some \<lparr>title = ''T'', artist = ''A'', album = ''/output/x'', year = None\<rparr>"
  "create_output_structure raw_config (fs_tagged ''A'' ''/output/x'')
       \<lparr>title = ''T'', artist = ''A'', album = ''/output/x'', year = None\<rparr>
       (path_name [''input'', ''Book''])
     = Inr (([''output'', ''x''], ''/output/x.m4b''), fs_raw_planned)"
  "\<not> exists fs_raw_planned (pjoin [''output'', ''x''] ''/output/x.m4b'')"
  "stage_copy raw_config fs_raw_planned [''input'', ''Book''] = Inr fs_raw_staged"
  "tag_with_beets raw_config (beet failing_tools) fs_raw_staged
       (temp_book_path raw_config [''input'', ''Book''])
       \<lparr>title = ''T'', artist = ''A'', album = ''/output/x'', year = None\<rparr>
     = Inr (\<lparr>title = ''T'', artist = ''A'', album = ''/output/x'', year = None\<rparr>,
            fs_raw_staged)"
  "convert_to_m4b_ffmpeg712 raw_config (ffmpeg failing_tools) fs_raw_staged
       (temp_book_path raw_config [''input'', ''Book''])
       \<lparr>title = ''T'', artist = ''A'', album = ''/output/x'', year = None\<rparr>
       ''/output/x.m4b''
     = Inr (None, fs_raw_failed)"
  by code_simp+

lemma raw_job_run:
  "process_audiobook raw_config failing_tools (fs_tagged ''A'' ''/output/x'') [''input'', ''Book'']
     = (ConversionFailed, fs_raw_failed)"
proof -
  have "enable_audible raw_config \<and> tag_before_conversion raw_config"
    by (simp add: raw_config_def default_config_def)
  then show ?thesis
    using raw_job_steps
    by (simp add: process_audiobook_def tag_and_convert_def convert_and_move_def)
qed

section \<open>The claims on the sanitizer, the metadata resolver and the scratch paths\<close>

text \<open>
  C7, as the specification states it: for every input string the sanitized name is no longer
  than the configured maximum and holds no reserved character. The code does so only when
  \<^verbatim>\<open>sanitize_names\<close> is set: with the switch off the input comes back as it is, here
  \<^verbatim>\<open>a/b\<close> of length 3 under a maximum of 2. A negative maximum cannot bound a length
  either: \<^verbatim>\<open>s[:-1]\<close> drops the last character.
\<close>

theorem sanitize_filename_counterexample:
  "sanitize_filename (default_config\<lparr>sanitize_names := False, max_filename_length := 2\<rparr>) ''a/b''
     = ''a/b''
   \<and> \<not> int (length (sanitize_filename
          (default_config\<lparr>sanitize_names := False, max_filename_length := 2\<rparr>) ''a/b'')) \<le> 2
   \<and> CHR ''/'' \<in> set reserved_chars
   \<and> sanitize_filename (default_config\<lparr>max_filename_length := - 1\<rparr>) ''abc'' = ''ab''"
  by (simp add: default_config_def sanitize_filename_def strip_reserved_def reserved_chars_def
      strip_def lstrip_def rstrip_def slice_to_def isspace_def Let_def)

text \<open>
  C7, amended: when \<^verbatim>\<open>sanitize_names\<close> is set and the configured maximum is not
  negative, the sanitized name is no longer than the maximum and holds none of the reserved
  characters; when \<^verbatim>\<open>sanitize_names\<close> is not set, the name is returned unchanged. In every
  configuration the function is total, and the empty string is sanitized to the empty string.
\<close>

theorem sanitize_filename_bounded:
  "(sanitize_names cfg \<and> 0 \<le> max_filename_length cfg \<longrightarrow>
      int (length (sanitize_filename cfg s)) \<le> max_filename_length cfg)
   \<and> (sanitize_names cfg \<longrightarrow> set (sanitize_filename cfg s) \<inter> set reserved_chars = {})
   \<and> (\<not> sanitize_names cfg \<longrightarrow> sanitize_filename cfg s = s)
   \<and> sanitize_filename cfg [] = []"
  using sanitize_length [of cfg s] sanitize_no_reserved [of cfg s] sanitize_empty [of cfg]
  by (auto simp: sanitize_filename_def)

theorem sanitize_filename_bounded_witness:
  "sanitize_names (default_config\<lparr>max_filename_length := 5\<rparr>)
   \<and> 0 \<le> max_filename_length (default_config\<lparr>max_filename_length := 5\<rparr>)
   \<and> sanitize_filename (default_config\<lparr>max_filename_length := 5\<rparr>) ''a<b  c/d  e'' = ''ab cd''
   \<and> int (length (sanitize_filename (default_config\<lparr>max_filename_length := 5\<rparr>) ''a<b  c/d  e'')) \<le> 5
   \<and> set (sanitize_filename (default_config\<lparr>max_filename_length := 5\<rparr>) ''a<b  c/d  e'')
       \<inter> set reserved_chars = {}
   \<and> \<not> sanitize_names (default_config\<lparr>sanitize_names := False\<rparr>)
   \<and> sanitize_filename (default_config\<lparr>sanitize_names := False\<rparr>) ''a<b'' = ''a<b''"
proof -
  have v: "sanitize_filename (default_config\<lparr>max_filename_length := 5\<rparr>) ''a<b  c/d  e'' = ''ab cd''"
    by (simp add: default_config_def sanitize_filename_def strip_reserved_def reserved_chars_def
        strip_def lstrip_def rstrip_def slice_to_def isspace_def Let_def)
  show ?thesis
    using sanitize_filename_bounded [of "default_config\<lparr>max_filename_length := 5\<rparr>" "''a<b  c/d  e''"]
      sanitize_filename_bounded [of "default_config\<lparr>sanitize_names := False\<rparr>" "''a<b''"] v
    by (simp add: default_config_def)
qed

text \<open>
  C1, as the specification states it: metadata resolution returns absent only when the
  directory holds no supported audio file. The code also returns absent at line 149, when
  the tag library does not recognise the first audio file: here a directory with one
  \<^verbatim>\<open>.m4a\<close> file of unknown format.
\<close>

theorem extract_metadata_absent_counterexample:
  "audio_files fs_unrecognised [''input'', ''Book''] = [[''input'', ''Book'', ''01.m4a'']]
   \<and> extract_metadata_from_files default_config fs_unrecognised [''input'', ''Book''] = None"
  by code_simp

text \<open>
  C1, amended: metadata resolution returns absent exactly when the directory holds no
  supported audio file (\<^verbatim>\<open>*.mp3\<close> or \<^verbatim>\<open>*.m4a\<close>) or the tag library does not recognise
  the format of the first one in sorted order; in every other case it returns a metadata
  record.
\<close>

theorem extract_metadata_absent_iff:
  "extract_metadata_from_files cfg fs book_path = None
   \<longleftrightarrow> audio_files fs book_path = [] \<or> unrecognised fs book_path"
  by (auto simp: extract_metadata_from_files_def unrecognised_def
      split: list.splits probe.splits sum.splits)

text \<open>
  C2: whenever metadata resolution returns a record, its artist and its title are not
  empty; and a structured directory with audio files that carry no tags resolves to the
  author directory's name as artist and the book directory's name as title and album. A book
  directory is a path of non-empty components that lies strictly below the input root (or,
  as the staged copy that is resolved again after tagging, at least two levels below the
  filesystem root).
\<close>

theorem resolved_artist_title_nonempty:
  assumes "[] \<notin> set book_path"
    and "strict_prefix (input_dir cfg) book_path \<or> 2 \<le> length book_path"
  shows "(\<forall>m. extract_metadata_from_files cfg fs book_path = Some m
              \<longrightarrow> artist m \<noteq> [] \<and> title m \<noteq> [])
         \<and> (tagless fs book_path \<and> path_parent book_path \<noteq> input_dir cfg \<longrightarrow>
              extract_metadata_from_files cfg fs book_path =
                Some \<lparr>title = path_name book_path, artist = path_name (path_parent book_path),
                      album = path_name book_path, year = None\<rparr>)"
proof -
  from assms(2) have ne: "book_path \<noteq> []" by auto
  have name: "path_name book_path \<noteq> []"
    by (rule path_name_nonempty [OF assms(1) ne])
  have author: "path_parent book_path \<noteq> input_dir cfg \<Longrightarrow> path_name (path_parent book_path) \<noteq> []"
    by (rule parent_name_nonempty [OF assms])
  have "artist m \<noteq> [] \<and> title m \<noteq> []"
    if "extract_metadata_from_files cfg fs book_path = Some m" for m
  proof -
    from extract_cases [OF that] show ?thesis
    proof
      assume "m = fallback_metadata cfg book_path"
      with name author show ?thesis by (auto simp: fallback_metadata_eq)
    next
      assume "\<exists>f. m = resolve_fields cfg book_path f"
      with name show ?thesis by (auto simp: resolve_fields_artist resolve_fields_title)
    qed
  qed
  moreover have "extract_metadata_from_files cfg fs book_path =
      Some \<lparr>title = path_name book_path, artist = path_name (path_parent book_path),
            album = path_name book_path, year = None\<rparr>"
    if "tagless fs book_path" "path_parent book_path \<noteq> input_dir cfg"
    using extract_tagless [OF that(1), of cfg] author [OF that(2)] that(2)
    by (simp add: resolve_fields_def final_fallback_def structure_fallback_def
        detect_input_structure_def clean_def Let_def)
  ultimately show ?thesis by blast
qed

theorem resolved_artist_title_nonempty_witness:
  "[] \<notin> set [''Input'', ''Jane Doe'', ''My Book'']
   \<and> strict_prefix (input_dir jane_config) [''Input'', ''Jane Doe'', ''My Book'']
   \<and> tagless (fs_jane (Probed NoTags)) [''Input'', ''Jane Doe'', ''My Book'']
   \<and> extract_metadata_from_files jane_config (fs_jane (Probed NoTags))
         [''Input'', ''Jane Doe'', ''My Book'']
       = Some \<lparr>title = ''My Book'', artist = ''Jane Doe'', album = ''My Book'', year = None\<rparr>"
proof -
  have t: "tagless (fs_jane (Probed NoTags)) [''Input'', ''Jane Doe'', ''My Book'']"
    by code_simp
  have s: "strict_prefix (input_dir jane_config) [''Input'', ''Jane Doe'', ''My Book'']"
    by (simp add: jane_config_def default_config_def)
  have n: "[] \<notin> set [''Input'', ''Jane Doe'', ''My Book'']" by simp
  have p: "path_parent [''Input'', ''Jane Doe'', ''My Book''] \<noteq> input_dir jane_config"
    by (simp add: path_parent_def jane_config_def default_config_def)
  from resolved_artist_title_nonempty [OF n disjI1 [OF s], of "fs_jane (Probed NoTags)"] t p
  have "extract_metadata_from_files jane_config (fs_jane (Probed NoTags))
         [''Input'', ''Jane Doe'', ''My Book'']
       = Some \<lparr>title = path_name [''Input'', ''Jane Doe'', ''My Book''],
               artist = path_name (path_parent [''Input'', ''Jane Doe'', ''My Book'']),
               album = path_name [''Input'', ''Jane Doe'', ''My Book''], year = None\<rparr>"
    by blast
  then show ?thesis using t s n by (simp add: path_name_def path_parent_def)
qed

text \<open>
  C3, as the specification states it: in a structured directory the structure-based step
  fills an unresolved album with the inferred book name even when the title was resolved from
  the tags. The code fills title and album from the folder only when both are unresolved
  (line 185); here the tags give a title and no album, and the album becomes the title, not
  the book directory's name \<^verbatim>\<open>My Book\<close>.
\<close>

theorem structure_fallback_counterexample:
  "detect_input_structure jane_config [''Input'', ''Jane Doe'', ''My Book'']
     = Structured ''Jane Doe'' ''My Book''
   \<and> tag_fields (fs_jane (Probed (DictTags [(''TIT2'', [''Chapter One''])])))
         [''Input'', ''Jane Doe'', ''My Book'']
       = Some (Some ''Chapter One'', Some [], Some [], Some [])
   \<and> extract_metadata_from_files jane_config
         (fs_jane (Probed (DictTags [(''TIT2'', [''Chapter One''])])))
         [''Input'', ''Jane Doe'', ''My Book'']
       = Some \<lparr>title = ''Chapter One'', artist = ''Jane Doe'', album = ''Chapter One'',
               year = None\<rparr>"
  by code_simp

text \<open>
  C3, amended: when the tags of the first audio file are read, every field they resolve is
  kept. An unresolved artist becomes the inferred author in a structured directory (and
  \<^verbatim>\<open>Unknown Author\<close> in a flat one, or when the author directory has no name). Title and
  album are filled from the folder only together, when both are unresolved: both become the
  directory name, which is the inferred book name. When only one of the two is unresolved,
  the structure-based step leaves it, and the final defaults set an unresolved title to the
  directory name and an unresolved album to the resolved title.
\<close>

theorem structure_fallback_fields:
  assumes "tag_fields fs book_path = Some (ti, ar, al, yr)"
  shows "\<exists>m. extract_metadata_from_files cfg fs book_path = Some m
           \<and> artist m =
               (if truthy (clean ar) then value_of (clean ar)
                else (case detect_input_structure cfg book_path of
                        Structured author book \<Rightarrow>
                          if author \<noteq> [] then author else ''Unknown Author''
                      | Flat book \<Rightarrow> ''Unknown Author''))
           \<and> title m = (if truthy (clean ti) then value_of (clean ti) else path_name book_path)
           \<and> album m = (if truthy (clean al) then value_of (clean al) else title m)"
  using extract_tag_fields [OF assms, of cfg] resolve_fields_values [of cfg book_path ti ar al yr]
  by simp

theorem structure_fallback_fields_witness:
  "tag_fields (fs_jane (Probed (DictTags [(''TALB'', [''The Album''])])))
       [''Input'', ''Jane Doe'', ''My Book'']
     = Some (Some ''The Album'', Some [], Some ''The Album'', Some [])
   \<and> extract_metadata_from_files jane_config
       (fs_jane (Probed (DictTags [(''TALB'', [''The Album''])])))
       [''Input'', ''Jane Doe'', ''My Book'']
     = Some \<lparr>title = ''The Album'', artist = ''Jane Doe'', album = ''The Album'', year = None\<rparr>"
proof -
  let ?fs = "fs_jane (Probed (DictTags [(''TALB'', [''The Album''])]))"
  let ?p = "[''Input'', ''Jane Doe'', ''My Book'']"
  have f: "tag_fields ?fs ?p = Some (Some ''The Album'', Some [], Some ''The Album'', Some [])"
    by code_simp
  have c: "truthy (clean (Some ''The Album''))"
    "value_of (clean (Some ''The Album'')) = ''The Album''" "\<not> truthy (clean (Some []))"
    by (simp_all add: clean_def strip_def lstrip_def rstrip_def isspace_def)
  have d: "detect_input_structure jane_config ?p = Structured ''Jane Doe'' ''My Book''"
    by code_simp
  from structure_fallback_fields [OF f, of jane_config] obtain m where
    m: "extract_metadata_from_files jane_config ?fs ?p = Some m"
      "artist m = ''Jane Doe''" "title m = ''The Album''" "album m = ''The Album''"
    by (auto simp: c d)
  have "extract_metadata_from_files jane_config ?fs ?p = Some (resolve_fields jane_config ?p
           (Some ''The Album'', Some [], Some ''The Album'', Some []))"
    by (rule extract_tag_fields [OF f])
  with m(1) have "year m = None" by (auto simp: resolve_fields_def clean_def split: prod.splits)
  with m have "m = \<lparr>title = ''The Album'', artist = ''Jane Doe'', album = ''The Album'', year = None\<rparr>"
    by (cases m) simp
  with m(1) f show ?thesis by simp
qed

text \<open>
  C8: when the directory holds a supported audio file and reading the tags of the first one
  raises, metadata resolution returns a record built from the folder alone: in a structured
  directory the author directory's name as artist and the book directory's name as title
  and album, in a flat directory \<^verbatim>\<open>Unknown Author\<close> and the directory name.
\<close>

theorem extract_metadata_read_failure:
  assumes "reading_raises fs book_path"
  shows "audio_files fs book_path \<noteq> []
         \<and> extract_metadata_from_files cfg fs book_path =
             Some (if path_parent book_path \<noteq> input_dir cfg
                   then \<lparr>title = path_name book_path,
                         artist = path_name (path_parent book_path),
                         album = path_name book_path, year = None\<rparr>
                   else \<lparr>title = path_name book_path, artist = ''Unknown Author'',
                         album = path_name book_path, year = None\<rparr>)"
  using assms
  by (auto simp: reading_raises_def extract_metadata_from_files_def fallback_metadata_eq
      split: list.splits probe.splits sum.splits)

theorem extract_metadata_read_failure_witness:
  "reading_raises (fs_jane ProbeRaises) [''Input'', ''Jane Doe'', ''My Book'']
   \<and> extract_metadata_from_files jane_config (fs_jane ProbeRaises)
         [''Input'', ''Jane Doe'', ''My Book'']
       = Some \<lparr>title = ''My Book'', artist = ''Jane Doe'', album = ''My Book'', year = None\<rparr>
   \<and> reading_raises (fs_flat (Probed OpaqueTags)) [''input'', ''Book One'']
   \<and> extract_metadata_from_files default_config (fs_flat (Probed OpaqueTags))
         [''input'', ''Book One'']
       = Some \<lparr>title = ''Book One'', artist = ''Unknown Author'', album = ''Book One'',
               year = None\<rparr>"
proof -
  have r1: "reading_raises (fs_jane ProbeRaises) [''Input'', ''Jane Doe'', ''My Book'']"
    by code_simp
  have r2: "reading_raises (fs_flat (Probed OpaqueTags)) [''input'', ''Book One'']"
    by code_simp
  show ?thesis
    using extract_metadata_read_failure [OF r1, of jane_config]
      extract_metadata_read_failure [OF r2, of default_config] r1 r2
    by (simp add: path_name_def path_parent_def jane_config_def default_config_def)
qed

text \<open>
  C9, as the specification states it: two distinct source directories never share a scratch
  path. The code derives every scratch path from the last component of the source path
  alone, so two books with the same directory name under different authors share all four.
\<close>

theorem temp_paths_counterexample:
  "[''input'', ''Author A'', ''Book''] \<noteq> [''input'', ''Author B'', ''Book'']
   \<and> temp_book_path default_config [''input'', ''Author A'', ''Book'']
       = temp_book_path default_config [''input'', ''Author B'', ''Book'']
   \<and> beets_config_file default_config (temp_book_path default_config [''input'', ''Author A'', ''Book''])
       = beets_config_file default_config (temp_book_path default_config [''input'', ''Author B'', ''Book''])
   \<and> beets_library default_config (temp_book_path default_config [''input'', ''Author A'', ''Book''])
       = beets_library default_config (temp_book_path default_config [''input'', ''Author B'', ''Book''])
   \<and> file_list_path default_config (temp_book_path default_config [''input'', ''Author A'', ''Book''])
       = file_list_path default_config (temp_book_path default_config [''input'', ''Author B'', ''Book''])"
  by (simp add: temp_book_path_def path_name_def)

text \<open>
  C9, amended: the staged copy path, the beets configuration and database paths and the
  concat file-list path of a job are determined by the name of the source directory (the
  last component of its path). For two source directories each of these paths of the one job
  differs from the same path of the other job exactly when the two directory names differ.
\<close>

theorem temp_paths_by_name:
  assumes "CHR ''/'' \<notin> set (path_name p)" and "CHR ''/'' \<notin> set (path_name q)"
  shows "(temp_book_path cfg p = temp_book_path cfg q \<longleftrightarrow> path_name p = path_name q)
       \<and> (beets_config_file cfg (temp_book_path cfg p) = beets_config_file cfg (temp_book_path cfg q)
            \<longleftrightarrow> path_name p = path_name q)
       \<and> (beets_library cfg (temp_book_path cfg p) = beets_library cfg (temp_book_path cfg q)
            \<longleftrightarrow> path_name p = path_name q)
       \<and> (file_list_path cfg (temp_book_path cfg p) = file_list_path cfg (temp_book_path cfg q)
            \<longleftrightarrow> path_name p = path_name q)"
proof -
  let ?sp = "temp_book_path cfg p" and ?sq = "temp_book_path cfg q"
  note sp = staged_name [OF assms(1), of cfg] and sq = staged_name [OF assms(2), of cfg]
  have "temp_book_path cfg p = temp_book_path cfg q \<longleftrightarrow> path_name p = path_name q"
    by (simp add: temp_book_path_eq [OF assms(1)] temp_book_path_eq [OF assms(2)])
  moreover have "beets_config_file cfg ?sp = beets_config_file cfg ?sq
      \<longleftrightarrow> path_name p = path_name q"
    by (simp add: beets_config_file_eq [OF sp(2)] beets_config_file_eq [OF sq(2)] sp(1) sq(1))
  moreover have "beets_library cfg ?sp = beets_library cfg ?sq \<longleftrightarrow> path_name p = path_name q"
    by (simp add: beets_library_eq [OF sp(2)] beets_library_eq [OF sq(2)] sp(1) sq(1))
  moreover have "file_list_path cfg ?sp = file_list_path cfg ?sq \<longleftrightarrow> path_name p = path_name q"
    by (simp add: file_list_path_eq [OF sp(2)] file_list_path_eq [OF sq(2)] sp(1) sq(1))
  ultimately show ?thesis by blast
qed

theorem temp_paths_by_name_witness:
  "CHR ''/'' \<notin> set (path_name [''input'', ''Author A'', ''Book''])
   \<and> CHR ''/'' \<notin> set (path_name [''input'', ''Author A'', ''Other''])
   \<and> temp_book_path default_config [''input'', ''Author A'', ''Book'']
       \<noteq> temp_book_path default_config [''input'', ''Author A'', ''Other'']
   \<and> file_list_path default_config (temp_book_path default_config [''input'', ''Author A'', ''Book''])
       \<noteq> file_list_path default_config (temp_book_path default_config [''input'', ''Author A'', ''Other''])"
proof -
  have a: "CHR ''/'' \<notin> set (path_name [''input'', ''Author A'', ''Book''])"
    by (simp add: path_name_def)
  have b: "CHR ''/'' \<notin> set (path_name [''input'', ''Author A'', ''Other''])"
    by (simp add: path_name_def)
  have c: "path_name [''input'', ''Author A'', ''Book''] \<noteq> path_name [''input'', ''Author A'', ''Other'']"
    by (simp add: path_name_def)
  show ?thesis using temp_paths_by_name [OF a b, of default_config] a b c by simp
qed

section \<open>The claims on the pipeline\<close>


text \<open>
  C4, as the specification states it: a job that is skipped because its final output file
  exists creates nothing under the temp directory. The code does so only when names are
  sanitized. With the sanitizer switched off and the album tag \<^verbatim>\<open>/temp/x\<close>, the planned
  book directory is \<^verbatim>\<open>/temp/x\<close> and the planned final file is \<^verbatim>\<open>/temp/x.m4b\<close>. When
  that file exists the job is skipped, after line 237 has created the directory
  \<^verbatim>\<open>/temp/x\<close>.
\<close>

theorem skip_duplicate_counterexample:
  "\<not> sanitize_names raw_config
   \<and> extract_metadata_from_files raw_config fs_temp_album [''input'', ''Book'']
       = Some \<lparr>title = ''T'', artist = ''A'', album = ''/temp/x'', year = None\<rparr>
   \<and> create_output_structure raw_config fs_temp_album
         \<lparr>title = ''T'', artist = ''A'', album = ''/temp/x'', year = None\<rparr>
         (path_name [''input'', ''Book''])
       = Inr (([''temp'', ''x''], ''/temp/x.m4b''), ([''temp'', ''x''], Dir) # fs_temp_album)
   \<and> exists (([''temp'', ''x''], Dir) # fs_temp_album) (pjoin [''temp'', ''x''] ''/temp/x.m4b'')
   \<and> fst (process_audiobook raw_config failing_tools fs_temp_album [''input'', ''Book''])
       = SkippedDuplicate
   \<and> prefix (temp_dir raw_config) [''temp'', ''x'']
   \<and> lookup fs_temp_album [''temp'', ''x''] = None
   \<and> lookup (snd (process_audiobook raw_config failing_tools fs_temp_album [''input'', ''Book'']))
         [''temp'', ''x''] = Some Dir"
proof -
  let ?m = "\<lparr>title = ''T'', artist = ''A'', album = ''/temp/x'', year = None\<rparr>"
  let ?fs1 = "([''temp'', ''x''], Dir) # fs_temp_album"
  have a: "\<not> sanitize_names raw_config" by (simp add: raw_config_def default_config_def)
  have md: "extract_metadata_from_files raw_config fs_temp_album [''input'', ''Book''] = Some ?m"
    by code_simp
  have cr: "create_output_structure raw_config fs_temp_album ?m (path_name [''input'', ''Book''])
      = Inr (([''temp'', ''x''], ''/temp/x.m4b''), ?fs1)"
    by code_simp
  have ex: "exists ?fs1 (pjoin [''temp'', ''x''] ''/temp/x.m4b'')" by code_simp
  have rm: "rmtree ?fs1 [''input'', ''Book'']
      = Inr [([''temp'', ''x''], Dir), ([''temp'', ''x.m4b''], File ProbeNone),
             ([''input''], Dir), ([''output''], Dir), ([''temp''], Dir)]"
    by code_simp
  have run: "process_audiobook raw_config failing_tools fs_temp_album [''input'', ''Book'']
      = (SkippedDuplicate,
         [([''temp'', ''x''], Dir), ([''temp'', ''x.m4b''], File ProbeNone),
          ([''input''], Dir), ([''output''], Dir), ([''temp''], Dir)])"
    using md cr ex rm by (simp add: process_audiobook_def)
  have p: "prefix (temp_dir raw_config) [''temp'', ''x'']"
    by (simp add: raw_config_def default_config_def)
  have before: "lookup fs_temp_album [''temp'', ''x''] = None" by code_simp
  have after: "lookup [([''temp'', ''x''], Dir), ([''temp'', ''x.m4b''], File ProbeNone),
          ([''input''], Dir), ([''output''], Dir), ([''temp''], Dir)] [''temp'', ''x''] = Some Dir"
    by code_simp
  show ?thesis
    unfolding run fst_conv snd_conv using a md cr ex p before after by (intro conjI) simp_all
qed

text \<open>
  C4, amended: names are sanitized and the planned book directory has no component
  \<^verbatim>\<open>..\<close>. When the planned final output file exists at the time of the check of line
  284, processing ends on the skip path: the source directory is removed, and every path
  that is not at or below the source directory is as before; in particular nothing at or
  below the temp directory or the output directory is created, changed or removed. The
  tree is well formed, the source directory is given in resolved form and lies apart from
  the temp and output directories.
\<close>

theorem skip_duplicate:
  assumes wf: "wf_fs fs" and san: "sanitize_names cfg"
    and pb: "plain book_path"
    and ut: "unrelated book_path (temp_dir cfg)"
    and uo: "unrelated book_path (output_dir cfg)"
    and md: "extract_metadata_from_files cfg fs book_path = Some m"
    and cr: "create_output_structure cfg fs m (path_name book_path) = Inr ((d, f), fs1)"
    and pd: "plain d"
    and ex: "exists fs1 (pjoin d f)"
  shows "\<exists>fs'. process_audiobook cfg tls fs book_path = (SkippedDuplicate, fs')
           \<and> lookup fs' book_path = None
           \<and> (\<forall>q. prefix book_path q \<longrightarrow> entry fs' q = None)
           \<and> (\<forall>q. \<not> prefix book_path q \<longrightarrow> entry fs' q = entry fs q)
           \<and> (\<forall>q. prefix (temp_dir cfg) q \<longrightarrow> entry fs' q = entry fs q)
           \<and> (\<forall>q. prefix (output_dir cfg) q \<longrightarrow> entry fs' q = entry fs q)"
proof -
  from cr have d: "d = output_book_dir cfg m" and f: "f = m4b_filename cfg m"
    and mk: "mkdir_parents fs d = Inr fs1"
    by (auto simp: create_output_structure_eq split: sum.splits)
  have final: "pjoin d f = d @ [f]" unfolding f by (rule final_path_eq [OF san])
  have pf: "plain (d @ [f])" using pd m4b_filename_not_dotdot [of cfg m] by (simp add: f)
  from ex obtain n where "lookup fs1 (d @ [f]) = Some n" by (auto simp: exists_def final)
  from lookup_plain_Some(2) [OF pf this] have "entry fs1 (d @ [f]) \<noteq> None" by simp
  moreover have "\<not> prefix (d @ [f]) d" by (auto simp: prefix_def)
  ultimately have here: "entry fs (d @ [f]) \<noteq> None"
    using mkdir_parents_outside [OF pd mk] by simp
  from wf_fs_parent [OF wf here] have "entry fs d = Some Dir" by simp
  from dir_at_resolve(3) [OF pd wf_fs_dir_at [OF wf this]] have "lookup fs d = Some Dir" .
  from mkdir_parents_existing [OF this] mk have fs1: "fs1 = fs" by simp
  have src: "lookup fs book_path = Some Dir" by (rule extract_Some_dir [OF md])
  have ne: "book_path \<noteq> []" using ut by (auto simp: unrelated_def)
  have run: "process_audiobook cfg tls fs book_path = (SkippedDuplicate, remove_tree book_path fs)"
    using md cr ex rmtree_dir [OF src pb] by (simp add: process_audiobook_def fs1)
  have gone: "entry (remove_tree book_path fs) q = None" if "prefix book_path q" for q
    using that ne by (auto simp: entry_remove_tree)
  have "lookup (remove_tree book_path fs) book_path = None"
    using lookup_plain [OF pb, of "remove_tree book_path fs"] gone [of book_path] by auto
  moreover have "entry (remove_tree book_path fs) q = entry fs q" if "\<not> prefix book_path q" for q
    using that by (simp add: entry_remove_tree)
  moreover have "entry (remove_tree book_path fs) q = entry fs q" if "prefix (temp_dir cfg) q" for q
    using unrelated_prefix [OF ut that] by (simp add: entry_remove_tree)
  moreover have "entry (remove_tree book_path fs) q = entry fs q"
    if "prefix (output_dir cfg) q" for q
    using unrelated_prefix [OF uo that] by (simp add: entry_remove_tree)
  ultimately show ?thesis using run gone by blast
qed

theorem skip_duplicate_witness:
  "wf_fs fs_done \<and> sanitize_names default_config
   \<and> plain [''input'', ''Jane Doe'', ''My Book'']
   \<and> unrelated [''input'', ''Jane Doe'', ''My Book''] (temp_dir default_config)
   \<and> unrelated [''input'', ''Jane Doe'', ''My Book''] (output_dir default_config)
   \<and> extract_metadata_from_files default_config fs_done [''input'', ''Jane Doe'', ''My Book'']
       = Some \<lparr>title = ''My Book'', artist = ''Jane Doe'', album = ''My Book'', year = None\<rparr>
   \<and> create_output_structure default_config fs_done
         \<lparr>title = ''My Book'', artist = ''Jane Doe'', album = ''My Book'', year = None\<rparr> ''My Book''
       = Inr (([''output'', ''Jane Doe'', ''My Book''], ''My Book.m4b''), fs_done)
   \<and> plain [''output'', ''Jane Doe'', ''My Book'']
   \<and> exists fs_done (pjoin [''output'', ''Jane Doe'', ''My Book''] ''My Book.m4b'')
   \<and> fst (process_audiobook default_config failing_tools fs_done
            [''input'', ''Jane Doe'', ''My Book'']) = SkippedDuplicate
   \<and> lookup (snd (process_audiobook default_config failing_tools fs_done
            [''input'', ''Jane Doe'', ''My Book''])) [''input'', ''Jane Doe'', ''My Book''] = None
   \<and> entry (snd (process_audiobook default_config failing_tools fs_done
            [''input'', ''Jane Doe'', ''My Book''])) [''temp''] = Some Dir
   \<and> entry (snd (process_audiobook default_config failing_tools fs_done
            [''input'', ''Jane Doe'', ''My Book'']))
          [''output'', ''Jane Doe'', ''My Book'', ''My Book.m4b''] = Some (File ProbeNone)"
proof -
  let ?p = "[''input'', ''Jane Doe'', ''My Book'']"
  let ?m = "\<lparr>title = ''My Book'', artist = ''Jane Doe'', album = ''My Book'', year = None\<rparr>"
  let ?o = "[''output'', ''Jane Doe'', ''My Book'', ''My Book.m4b'']"
  have wf: "wf_fs fs_done" by code_simp
  have san: "sanitize_names default_config" by (simp add: default_config_def)
  have pb: "plain ?p" by simp
  have ut: "unrelated ?p (temp_dir default_config)"
    by (simp add: unrelated_def default_config_def)
  have uo: "unrelated ?p (output_dir default_config)"
    by (simp add: unrelated_def default_config_def)
  have md: "extract_metadata_from_files default_config fs_done ?p = Some ?m" by code_simp
  have cr: "create_output_structure default_config fs_done ?m (path_name ?p)
      = Inr (([''output'', ''Jane Doe'', ''My Book''], ''My Book.m4b''), fs_done)"
    by code_simp
  have pd: "plain [''output'', ''Jane Doe'', ''My Book'']" by simp
  have ex: "exists fs_done (pjoin [''output'', ''Jane Doe'', ''My Book''] ''My Book.m4b'')"
    by code_simp
  have t: "entry fs_done [''temp''] = Some Dir" by code_simp
  have o: "entry fs_done ?o = Some (File ProbeNone)" by code_simp
  have pt: "prefix (temp_dir default_config) [''temp'']" by (simp add: default_config_def)
  have po: "prefix (output_dir default_config) ?o" by (simp add: default_config_def)
  from skip_duplicate [OF wf san pb ut uo md cr pd ex, of failing_tools] obtain fs' where
    r: "process_audiobook default_config failing_tools fs_done ?p = (SkippedDuplicate, fs')"
    and a: "lookup fs' ?p = None"
    and b: "\<forall>q. prefix (temp_dir default_config) q \<longrightarrow> entry fs' q = entry fs_done q"
    and c: "\<forall>q. prefix (output_dir default_config) q \<longrightarrow> entry fs' q = entry fs_done q"
    by blast
  from b pt t have b': "entry fs' [''temp''] = Some Dir" by simp
  from c [rule_format, OF po] o have c': "entry fs' ?o = Some (File ProbeNone)" by simp
  show ?thesis
    unfolding r fst_conv snd_conv
    using wf san pb ut uo md cr pd ex a b' c' by (simp add: path_name_def)
qed

text \<open>
  C5, as the specification states it: when the transcode step fails or times out, no file is
  moved into the output tree, and no partial file is left there. The code does so only when
  names are sanitized. With the sanitizer switched off and an album tag that is an absolute
  path, here \<^verbatim>\<open>/output/x\<close>, the transcoder is told to write to \<^verbatim>\<open>/output/x.m4b\<close> (line
  403), and the file it leaves when it times out lies in the output tree, at the planned
  final path.
\<close>

theorem transcode_failure_counterexample:
  "\<not> sanitize_names raw_config
   \<and> ffmpeg_result (ffmpeg failing_tools fs_raw_staged
         (ffmpeg_command raw_config (temp_book_path raw_config [''input'', ''Book''])
            \<lparr>title = ''T'', artist = ''A'', album = ''/output/x'', year = None\<rparr>
            ''/output/x.m4b'')) = TimedOut
   \<and> process_audiobook raw_config failing_tools (fs_tagged ''A'' ''/output/x'') [''input'', ''Book'']
       = (ConversionFailed, fs_raw_failed)
   \<and> prefix (output_dir raw_config) [''output'', ''x.m4b'']
   \<and> lookup (fs_tagged ''A'' ''/output/x'') [''output'', ''x.m4b''] = None
   \<and> lookup fs_raw_failed [''output'', ''x.m4b''] = Some (File ProbeNone)"
proof -
  have a: "\<not> sanitize_names raw_config" by (simp add: raw_config_def default_config_def)
  have b: "prefix (output_dir raw_config) [''output'', ''x.m4b'']"
    by (simp add: raw_config_def default_config_def)
  have c: "lookup (fs_tagged ''A'' ''/output/x'') [''output'', ''x.m4b''] = None" by code_simp
  have d: "lookup fs_raw_failed [''output'', ''x.m4b''] = Some (File ProbeNone)" by code_simp
  show ?thesis using a b c d raw_job_run by (simp add: failing_tools_def)
qed

text \<open>
  C5, amended: names are sanitized. When the transcoder fails or times out on every run, or
  the job ends on the branch of line 316 because the converter returned no output file,
  then, unless the job was skipped as a duplicate before staging, the job does not end in
  success, the source directory is still a directory, every entry at or below it is
  unchanged, no file is in the output tree that was not there before, and on the branch of
  line 316 the staged copy is still a directory in the temp directory. The temp directory
  and the source directory are given in resolved form, and the temp directory lies apart
  from the source and output directories.
\<close>

theorem transcode_failure_keeps_source:
  assumes san: "sanitize_names cfg"
    and name: "CHR ''/'' \<notin> set (path_name book_path)"
    and pt: "plain (temp_dir cfg)" and pb: "plain book_path"
    and ut: "unrelated book_path (temp_dir cfg)"
    and uot: "unrelated (output_dir cfg) (temp_dir cfg)"
    and run: "process_audiobook cfg tls fs book_path = (r, fs')"
    and why: "(\<forall>fs0 a. ffmpeg_result (ffmpeg tls fs0 a) \<noteq> Exited 0) \<or> r = ConversionFailed"
    and ns: "r \<noteq> SkippedDuplicate"
  shows "r \<noteq> Converted
         \<and> (lookup fs book_path = Some Dir \<longrightarrow> lookup fs' book_path = Some Dir)
         \<and> (\<forall>q. prefix book_path q \<and> entry fs q \<noteq> None \<longrightarrow> entry fs' q = entry fs q)
         \<and> (\<forall>q c. prefix (output_dir cfg) q \<and> entry fs' q = Some (File c)
                \<longrightarrow> entry fs q = Some (File c))
         \<and> (r = ConversionFailed \<longrightarrow> lookup fs' (temp_book_path cfg book_path) = Some Dir)"
proof -
  from process_audiobook_frame [OF san name pt run why ns]
  have r: "r \<noteq> Converted" and c: "confined (temp_dir cfg) fs fs'"
    and s: "r = ConversionFailed \<longrightarrow> dir_at fs' (temp_book_path cfg book_path)"
    by simp_all
  have step: "entry fs' q = entry fs q \<or> prefix (temp_dir cfg) q
      \<or> (entry fs q = None \<and> entry fs' q = Some Dir)" for q
    using c by (simp add: confined_def)
  have kept: "entry fs' q = Some Dir" if "prefix q book_path" "entry fs q = Some Dir" for q
  proof -
    have "\<not> prefix (temp_dir cfg) q"
      using that(1) ut by (auto simp: unrelated_def dest: prefix_order.trans)
    with step [of q] that(2) show ?thesis by auto
  qed
  have src: "lookup fs' book_path = Some Dir" if "lookup fs book_path = Some Dir"
    using dir_at_resolve(3) [OF pb dir_at_kept [OF lookup_dir_at [OF pb that] kept]] .
  have same: "entry fs' q = entry fs q" if "prefix book_path q" "entry fs q \<noteq> None" for q
    using step [of q] that unrelated_prefix [OF ut, of q] by auto
  have out: "entry fs q = Some (File c)"
    if "prefix (output_dir cfg) q" "entry fs' q = Some (File c)" for q c
    using step [of q] that unrelated_prefix [OF uot, of q] by auto
  have staged: "lookup fs' (temp_book_path cfg book_path) = Some Dir" if "r = ConversionFailed"
    using dir_at_resolve(3) [OF staged_plain(1) [OF name pt]] s that by simp
  show ?thesis using r src same out staged by blast
qed

theorem transcode_failure_keeps_source_witness:
  "sanitize_names default_config
   \<and> CHR ''/'' \<notin> set (path_name [''input'', ''Jane Doe'', ''My Book''])
   \<and> plain (temp_dir default_config) \<and> plain [''input'', ''Jane Doe'', ''My Book'']
   \<and> unrelated [''input'', ''Jane Doe'', ''My Book''] (temp_dir default_config)
   \<and> unrelated (output_dir default_config) (temp_dir default_config)
   \<and> (\<forall>fs0 a. ffmpeg_result (ffmpeg failing_tools fs0 a) \<noteq> Exited 0)
   \<and> process_audiobook default_config failing_tools fs_new [''input'', ''Jane Doe'', ''My Book'']
       = (ConversionFailed, fs_failed)
   \<and> lookup fs_failed [''input'', ''Jane Doe'', ''My Book''] = Some Dir
   \<and> entry fs_failed [''input'', ''Jane Doe'', ''My Book'', ''01.mp3'']
       = Some (File (Probed NoTags))
   \<and> entry fs_failed [''output'', ''Jane Doe'', ''My Book'', ''My Book.m4b''] = None
   \<and> lookup fs_failed (temp_book_path default_config [''input'', ''Jane Doe'', ''My Book''])
       = Some Dir"
proof -
  let ?p = "[''input'', ''Jane Doe'', ''My Book'']"
  let ?o = "[''output'', ''Jane Doe'', ''My Book'', ''My Book.m4b'']"
  have san: "sanitize_names default_config" by (simp add: default_config_def)
  have name: "CHR ''/'' \<notin> set (path_name ?p)" by (simp add: path_name_def)
  have pt: "plain (temp_dir default_config)" by (simp add: default_config_def)
  have pb: "plain ?p" by simp
  have ut: "unrelated ?p (temp_dir default_config)"
    by (simp add: unrelated_def default_config_def)
  have uot: "unrelated (output_dir default_config) (temp_dir default_config)"
    by (simp add: unrelated_def default_config_def)
  have fail: "\<forall>fs0 a. ffmpeg_result (ffmpeg failing_tools fs0 a) \<noteq> Exited 0"
    by (simp add: failing_tools_def)
  have run: "process_audiobook default_config failing_tools fs_new ?p
      = (ConversionFailed, fs_failed)"
    by (rule failing_job_run)
  have dir: "lookup fs_new ?p = Some Dir" by code_simp
  have src: "entry fs_new (?p @ [''01.mp3'']) = Some (File (Probed NoTags))" by code_simp
  have out: "entry fs_new ?o = None" by code_simp
  have po: "prefix (output_dir default_config) ?o" by (simp add: default_config_def)
  note t = transcode_failure_keeps_source [OF san name pt pb ut uot run disjI1 [OF fail]]
  from t have t0: "lookup fs_new ?p = Some Dir \<longrightarrow> lookup fs_failed ?p = Some Dir"
    and t1: "\<forall>q. prefix ?p q \<and> entry fs_new q \<noteq> None \<longrightarrow> entry fs_failed q = entry fs_new q"
    and t2: "\<forall>q c. prefix (output_dir default_config) q \<and> entry fs_failed q = Some (File c)
                \<longrightarrow> entry fs_new q = Some (File c)"
    and t3: "lookup fs_failed (temp_book_path default_config ?p) = Some Dir"
    by blast+
  have a0: "lookup fs_failed ?p = Some Dir" using t0 dir by simp
  have a: "entry fs_failed (?p @ [''01.mp3'']) = Some (File (Probed NoTags))"
    using t1 [rule_format, of "?p @ [''01.mp3'']"] src by simp
  have nd: "entry fs_failed ?o \<noteq> Some Dir" by code_simp
  have b: "entry fs_failed ?o = None"
  proof (cases "entry fs_failed ?o")
    case None
    then show ?thesis .
  next
    case (Some n)
    with nd obtain c where "entry fs_failed ?o = Some (File c)" by (cases n) auto
    with t2 [rule_format, of ?o c] po out show ?thesis by simp
  qed
  show ?thesis
    using san name pt pb ut uot fail run a0 a b t3 by (intro conjI) simp_all
qed




end
